theory Spec2Isabelle
  imports Complex_Main
begin

section \<open>The stacked national-accounts table\<close>

text \<open>
  \<^verbatim>\<open>cn_extract_data.py\<close> works on a pandas DataFrame whose rows are the records of the
  stacked national-accounts data. A row has the six columns of the data model;
  the numeric column is called \<^verbatim>\<open>value\<close> in the source and \<open>val\<close> here. Numbers are
  exact rationals, the idealisation of the float64 column.

  The table is the list of its rows in index order. Every row has an index label of its
  own, so a boolean mask computed on the whole table and applied to a subset of it
  (\<^verbatim>\<open>result[df[key] == value]\<close>, which pandas aligns on the index) keeps exactly the rows of
  the subset that satisfy the test themselves.
\<close>

record row =
  code :: string
  institution :: string
  ressources :: bool
  year :: int
  description :: string
  val :: rat

text \<open>Python values that a constraint set or a registry entry can hold.\<close>

datatype pyval = PNone | PStr string | PBool bool | PInt int | PNum rat

text \<open>
  The exceptions of the source and of the libraries it calls. \<open>KeyError\<close> and
  \<open>NameError\<close> carry the missing name. \<open>RuntimeError\<close> is Python's "maximum
  recursion depth exceeded", \<open>ParseError\<close> the exception of the formula parser (and
  Python's SyntaxError), \<open>DataError\<close> the plain \<^verbatim>\<open>Exception\<close> of the DataFrame
  constructor.
  \<open>Unmodelled\<close> is no Python exception: it marks an input on which the libraries'
  behaviour is outside this development (its argument says which).
\<close>

datatype error =
    KeyError string
  | TypeError
  | ValueError
  | ZeroDivisionError
  | UnboundLocalError
  | RuntimeError
  | NameError string
  | ParseError
  | DataError
  | Unmodelled string

text \<open>
  A DataFrame of table rows. \<open>DataFrame rs\<close> has the six columns and the rows \<open>rs\<close>
  (possibly none); \<open>NoFrame\<close> is \<^verbatim>\<open>pandas.DataFrame()\<close>, with no column and no row.
\<close>

datatype frame = DataFrame "row list" | NoFrame

fun frame_rows :: "frame \<Rightarrow> row list" where
  "frame_rows (DataFrame rs) = rs"
| "frame_rows NoFrame = []"

definition frame_empty :: "frame \<Rightarrow> bool" where
  \<comment> \<open>\<^verbatim>\<open>result.empty\<close>\<close>
  "frame_empty f = (frame_rows f = [])"

definition getitem_bool :: "frame \<Rightarrow> (row \<Rightarrow> bool) \<Rightarrow> frame" where
  \<comment> \<open>\<^verbatim>\<open>result[mask]\<close>; on \<^verbatim>\<open>pandas.DataFrame()\<close> the mask is aligned to an empty index\<close>
  "getitem_bool f P = (case f of DataFrame rs \<Rightarrow> DataFrame (filter P rs) | NoFrame \<Rightarrow> NoFrame)"

subsection \<open>Comparing a column with a value\<close>

text \<open>
  Python's \<^verbatim>\<open>==\<close> on the values of a cell: numbers compare by value (and \<^verbatim>\<open>True == 1\<close>),
  text compares with text, and text never equals a number.
\<close>

fun py_num :: "pyval \<Rightarrow> rat option" where
  "py_num (PBool b) = Some (if b then 1 else 0)"
| "py_num (PInt i) = Some (of_int i)"
| "py_num (PNum r) = Some r"
| "py_num _ = None"

fun py_eq :: "pyval \<Rightarrow> pyval \<Rightarrow> bool" where
  "py_eq (PStr s) (PStr t) = (s = t)"
| "py_eq PNone PNone = True"
| "py_eq a b = (case (py_num a, py_num b) of (Some x, Some y) \<Rightarrow> x = y | _ \<Rightarrow> False)"

definition getitem_col :: "string \<Rightarrow> (row \<Rightarrow> pyval) option" where
  \<comment> \<open>\<^verbatim>\<open>df[key]\<close>: the column, or \<open>None\<close> where pandas raises KeyError\<close>
  "getitem_col key =
     (if key = ''code'' then Some (\<lambda>r. PStr (code r))
      else if key = ''institution'' then Some (\<lambda>r. PStr (institution r))
      else if key = ''ressources'' then Some (\<lambda>r. PBool (ressources r))
      else if key = ''year'' then Some (\<lambda>r. PInt (year r))
      else if key = ''description'' then Some (\<lambda>r. PStr (description r))
      else if key = ''value'' then Some (\<lambda>r. PNum (val r))
      else None)"

subsection \<open>Series.str.contains\<close>

text \<open>
  \<^verbatim>\<open>df['description'].str.contains(value)\<close> is called with its defaults, so pandas reads
  \<open>value\<close> as a regular expression and keeps the descriptions in which \<^verbatim>\<open>re.search\<close>
  finds a match. The fragment modelled here is: ordinary characters, which match
  themselves, and the dot, which matches any character but a newline. A pattern with
  another metacharacter is \<open>Unmodelled\<close>; a value that is not text makes \<^verbatim>\<open>re\<close> raise
  TypeError.
\<close>

definition re_special :: "char list" where
  "re_special = [CHR 0x5C, CHR ''^'', CHR ''$'', CHR ''*'', CHR ''+'', CHR ''?'', CHR ''{'',
     CHR ''}'', CHR ''['', CHR '']'', CHR ''|'', CHR ''('', CHR '')'']"

fun re_match_here :: "string \<Rightarrow> string \<Rightarrow> bool" where
  "re_match_here [] s = True"
| "re_match_here (p # ps) [] = False"
| "re_match_here (p # ps) (c # cs) =
     (((p = CHR ''.'' \<and> c \<noteq> CHR 0x0A) \<or> (p \<noteq> CHR ''.'' \<and> p = c)) \<and> re_match_here ps cs)"

fun re_search :: "string \<Rightarrow> string \<Rightarrow> bool" where
  "re_search pat [] = re_match_here pat []"
| "re_search pat (c # cs) = (re_match_here pat (c # cs) \<or> re_search pat cs)"

definition str_contains :: "pyval \<Rightarrow> error + (string \<Rightarrow> bool)" where
  "str_contains v =
     (case v of
        PStr pat \<Rightarrow>
          if list_ex (\<lambda>c. c \<in> set re_special) pat then Inl (Unmodelled ''regular expression'')
          else Inr (re_search pat)
      | _ \<Rightarrow> Inl TypeError)"

section \<open>The Row Filter: look\_up\<close>

text \<open>
  A constraint set is a Python dict; the list of its items, in iteration order, is what
  the loop of \<^verbatim>\<open>look_up\<close> runs over.
\<close>

type_synonym entry = "(string \<times> pyval) list"

fun look_up_items :: "entry \<Rightarrow> frame \<Rightarrow> error + frame" where
  "look_up_items [] result = Inr result"
| "look_up_items ((key, v) # items) result =
     (if v = PNone then look_up_items items result
      else if key = ''drop'' then look_up_items items result
      else if key \<noteq> ''description'' \<and> key \<noteq> ''formula'' then
        (case getitem_col key of
           None \<Rightarrow> Inl (KeyError key)
         | Some col \<Rightarrow>
             let result' = getitem_bool result (\<lambda>r. py_eq (col r) v)
             in look_up_items items (if frame_empty result' then NoFrame else result'))
      else if key = ''description'' then
        (case str_contains v of
           Inl e \<Rightarrow> Inl e
         | Inr found \<Rightarrow> look_up_items items (getitem_bool result (\<lambda>r. found (description r))))
      else look_up_items items NoFrame)"

definition look_up :: "row list \<Rightarrow> entry \<Rightarrow> int list \<Rightarrow> error + frame" where
  "look_up df entry_by_index years =
     look_up_items entry_by_index (DataFrame (filter (\<lambda>r. year r \<in> set years) df))"

definition default_years :: "int list" where
  \<comment> \<open>\<^verbatim>\<open>range(1949, 2014)\<close>\<close>
  "default_years = [1949 .. 2013]"

section \<open>The batch filter: look\_many\<close>

text \<open>
  \<^verbatim>\<open>look_many\<close> has no parameter for the years: it calls \<^verbatim>\<open>look_up(df, entity)\<close>, which
  runs over the default range. The frames are put one under the other; a frame without
  columns brings no row, and \<^verbatim>\<open>drop_duplicates\<close> is taken to leave such a frame as it is.
\<close>

fun concat_rows :: "frame \<Rightarrow> frame \<Rightarrow> frame" where
  \<comment> \<open>\<^verbatim>\<open>pandas.concat([a, b], axis = 0)\<close>\<close>
  "concat_rows NoFrame NoFrame = NoFrame"
| "concat_rows a b = DataFrame (frame_rows a @ frame_rows b)"

fun keep_first :: "row list \<Rightarrow> row list" where
  "keep_first [] = []"
| "keep_first (r # rs) = r # keep_first (filter (\<lambda>x. x \<noteq> r) rs)"

definition drop_duplicates :: "frame \<Rightarrow> frame" where
  \<comment> \<open>keeps the first of the rows that are equal in every column\<close>
  "drop_duplicates f = (case f of DataFrame rs \<Rightarrow> DataFrame (keep_first rs) | NoFrame \<Rightarrow> NoFrame)"

fun look_many_loop :: "row list \<Rightarrow> entry list \<Rightarrow> frame \<Rightarrow> error + frame" where
  "look_many_loop df [] df_output = Inr df_output"
| "look_many_loop df (entity # rest) df_output =
     (case look_up df entity default_years of
        Inl e \<Rightarrow> Inl e
      | Inr df_inter \<Rightarrow> look_many_loop df rest (concat_rows df_output df_inter))"

definition look_many :: "row list \<Rightarrow> entry list \<Rightarrow> error + frame" where
  "look_many df entry_by_index_list =
     (case look_many_loop df entry_by_index_list NoFrame of
        Inl e \<Rightarrow> Inl e
      | Inr df_output \<Rightarrow> Inr (drop_duplicates df_output))"

section \<open>Formulas\<close>

text \<open>
  A formula is text. The source hands it to two libraries: the parser of
  \<^verbatim>\<open>py_expression_eval\<close> lists the variables it mentions, and Python's \<^verbatim>\<open>eval\<close> computes
  it on numpy arrays. Both are modelled on the grammar the specification gives:
  variable names, integer literals, the operators \<^verbatim>\<open>+ - * / ^\<close> (with both signs as
  prefix operators) and parentheses. A formula of this grammar that is ill-formed ends
  in \<open>ParseError\<close>. A formula with anything else in it (a decimal point, a comma, another
  operator, a literal with a leading zero) is \<open>Unmodelled\<close>, and so is a formula with a
  name that the parser may read as one of its constants \<^verbatim>\<open>E\<close> and \<^verbatim>\<open>PI\<close> or as one of its
  functions.
\<close>

subsection \<open>Tokens\<close>

datatype token =
  TNum nat | TId string | TPlus | TMinus | TStar | TSlash | TPow | TCaret | TLParen | TRParen | TBad

datatype lexstate = Idle | InNum string | InId string | AfterStar

definition letters :: string where
  "letters = ''abcdefghijklmnopqrstuvwxyzABCDEFGHIJKLMNOPQRSTUVWXYZ_''"

definition digits :: string where
  "digits = ''0123456789''"

definition number_token :: "string \<Rightarrow> token" where
  \<comment> \<open>a literal with a leading zero is octal or refused in Python 2: not in the grammar\<close>
  "number_token ds =
     (if 1 < length ds \<and> take 1 ds = ''0'' then TBad
      else TNum (foldl (\<lambda>n c. 10 * n + (of_char c - 48)) 0 ds))"

fun flush :: "lexstate \<Rightarrow> token list" where
  "flush Idle = []"
| "flush (InNum ds) = [number_token ds]"
| "flush (InId s) = [TId s]"
| "flush AfterStar = [TStar]"

definition symbol_token :: "char \<Rightarrow> token list" where
  "symbol_token c =
     (if c = CHR '' '' then []
      else if c = CHR ''+'' then [TPlus]
      else if c = CHR ''-'' then [TMinus]
      else if c = CHR ''/'' then [TSlash]
      else if c = CHR ''^'' then [TCaret]
      else if c = CHR ''('' then [TLParen]
      else if c = CHR '')'' then [TRParen]
      else [TBad])"

fun lex :: "lexstate \<Rightarrow> string \<Rightarrow> token list" where
  "lex st [] = flush st"
| "lex st (c # cs) =
     (if c = CHR ''*'' then
        (if st = AfterStar then TPow # lex Idle cs else flush st @ lex AfterStar cs)
      else if c \<in> set digits then
        (case st of
           InNum ds \<Rightarrow> lex (InNum (ds @ [c])) cs
         | InId s \<Rightarrow> lex (InId (s @ [c])) cs
         | _ \<Rightarrow> flush st @ lex (InNum [c]) cs)
      else if c \<in> set letters then
        (case st of
           InId s \<Rightarrow> lex (InId (s @ [c])) cs
         | InNum ds \<Rightarrow> TBad # lex Idle cs
         | _ \<Rightarrow> flush st @ lex (InId [c]) cs)
      else flush st @ symbol_token c @ lex Idle cs)"

definition parser_tokens :: "string \<Rightarrow> error + token list" where
  \<comment> \<open>the formula parser: \<^verbatim>\<open>^\<close> is its power operator, \<^verbatim>\<open>**\<close> is an unexpected operator\<close>
  "parser_tokens f =
     (let ts = lex Idle f
      in if TBad \<in> set ts then Inl (Unmodelled ''formula outside the grammar'')
         else if TPow \<in> set ts then Inl ParseError
         else Inr (map (\<lambda>t. if t = TCaret then TPow else t) ts))"

definition python_tokens :: "string \<Rightarrow> error + token list" where
  \<comment> \<open>Python: \<^verbatim>\<open>**\<close> is the power operator; \<^verbatim>\<open>^\<close> has been replaced before\<close>
  "python_tokens f =
     (let ts = lex Idle f
      in if TBad \<in> set ts \<or> TCaret \<in> set ts
         then Inl (Unmodelled ''formula outside the grammar'')
         else Inr ts)"

subsection \<open>From tokens to postfix code\<close>

datatype binop = Add | Sub | Mul | Div | Pwr

datatype instr = IPush nat | ILoad string | IBin binop | INeg | IPos

datatype pending = PBin binop | PNeg | PPos | PParen

fun prec :: "binop \<Rightarrow> nat" where
  "prec Add = 1"
| "prec Sub = 1"
| "prec Mul = 2"
| "prec Div = 2"
| "prec Pwr = 4"

fun pending_prec :: "pending \<Rightarrow> nat" where
  "pending_prec (PBin b) = prec b"
| "pending_prec PNeg = 3"
| "pending_prec PPos = 3"
| "pending_prec PParen = 0"

fun instr_of :: "pending \<Rightarrow> instr" where
  "instr_of (PBin b) = IBin b"
| "instr_of PNeg = INeg"
| "instr_of PPos = IPos"
| "instr_of PParen = IPos"

fun binop_of :: "token \<Rightarrow> binop option" where
  "binop_of TPlus = Some Add"
| "binop_of TMinus = Some Sub"
| "binop_of TStar = Some Mul"
| "binop_of TSlash = Some Div"
| "binop_of TPow = Some Pwr"
| "binop_of _ = None"

fun pop_ops :: "binop \<Rightarrow> pending list \<Rightarrow> instr list \<times> pending list" where
  "pop_ops b [] = ([], [])"
| "pop_ops b (p # ps) =
     (if p \<noteq> PParen \<and> (prec b < pending_prec p \<or> (pending_prec p = prec b \<and> b \<noteq> Pwr))
      then (case pop_ops b ps of (out, rest) \<Rightarrow> (instr_of p # out, rest))
      else ([], p # ps))"

fun close_paren :: "pending list \<Rightarrow> (instr list \<times> pending list) option" where
  "close_paren [] = None"
| "close_paren (p # ps) =
     (if p = PParen then Some ([], ps)
      else (case close_paren ps of
              None \<Rightarrow> None
            | Some (out, rest) \<Rightarrow> Some (instr_of p # out, rest)))"

fun emit :: "instr list \<Rightarrow> error + instr list \<Rightarrow> error + instr list" where
  "emit out (Inl e) = Inl e"
| "emit out (Inr prog) = Inr (out @ prog)"

fun to_rpn :: "token list \<Rightarrow> bool \<Rightarrow> pending list \<Rightarrow> error + instr list" where
  "to_rpn [] operand ops =
     (if operand \<or> PParen \<in> set ops then Inl ParseError else Inr (map instr_of ops))"
| "to_rpn (t # ts) True ops =
     (case t of
        TNum n \<Rightarrow> emit [IPush n] (to_rpn ts False ops)
      | TId x \<Rightarrow> emit [ILoad x] (to_rpn ts False ops)
      | TLParen \<Rightarrow> to_rpn ts True (PParen # ops)
      | TMinus \<Rightarrow> to_rpn ts True (PNeg # ops)
      | TPlus \<Rightarrow> to_rpn ts True (PPos # ops)
      | _ \<Rightarrow> Inl ParseError)"
| "to_rpn (t # ts) False ops =
     (case binop_of t of
        Some b \<Rightarrow> (case pop_ops b ops of (out, rest) \<Rightarrow> emit out (to_rpn ts True (PBin b # rest)))
      | None \<Rightarrow>
          if t = TRParen then
            (case close_paren ops of
               None \<Rightarrow> Inl ParseError
             | Some (out, rest) \<Rightarrow> emit out (to_rpn ts False rest))
          else Inl ParseError)"

subsection \<open>The parser's list of variables\<close>

definition first_seen :: "string list \<Rightarrow> string list" where
  \<comment> \<open>\<^verbatim>\<open>if not item in vars: vars.append(item)\<close>\<close>
  "first_seen xs = foldl (\<lambda>vars x. if x \<in> set vars then vars else vars @ [x]) [] xs"

text \<open>
  The names that the parser does not take for variables, in one version of the library
  or another: the constants \<^verbatim>\<open>E\<close> and \<^verbatim>\<open>PI\<close>, which some versions recognise at the head of
  a longer name too, and the names of the built-in functions.
\<close>

definition reserved :: "string \<Rightarrow> bool" where
  "reserved name =
     (take 1 name = ''E'' \<or> take 2 name = ''PI''
      \<or> name \<in> set [''sin'', ''cos'', ''tan'', ''asin'', ''acos'', ''atan'', ''sinh'', ''cosh'',
             ''tanh'', ''asinh'', ''acosh'', ''atanh'', ''sqrt'', ''log'', ''log2'', ''log10'', ''ln'',
             ''lg'', ''abs'', ''ceil'', ''floor'', ''round'', ''trunc'', ''exp'', ''length'', ''not'',
             ''and'', ''or'', ''in'', ''random'', ''fac'', ''min'', ''max'', ''hypot'', ''pyt'',
             ''pow'', ''atan2'', ''if'', ''gamma'', ''roundTo'', ''concat'', ''true'', ''false''])"

definition variables :: "string \<Rightarrow> error + string list" where
  \<comment> \<open>\<^verbatim>\<open>Parser().parse(formula).variables()\<close>\<close>
  "variables f =
     (case parser_tokens f of
        Inl e \<Rightarrow> Inl e
      | Inr ts \<Rightarrow>
          if list_ex (\<lambda>t. case t of TId name \<Rightarrow> reserved name | _ \<Rightarrow> False) ts
          then Inl (Unmodelled ''reserved name'')
          else
            (case to_rpn ts True [] of
               Inl e \<Rightarrow> Inl e
             | Inr prog \<Rightarrow>
                 Inr (first_seen (concat (map (\<lambda>i. case i of ILoad x \<Rightarrow> [x] | _ \<Rightarrow> []) prog)))))"

subsection \<open>Text replacement\<close>

fun replace_from :: "string \<Rightarrow> string \<Rightarrow> nat \<Rightarrow> string \<Rightarrow> string" where
  "replace_from old new skip [] = []"
| "replace_from old new skip (c # cs) =
     (if 0 < skip then replace_from old new (skip - 1) cs
      else if take (length old) (c # cs) = old then new @ replace_from old new (length old - 1) cs
      else c # replace_from old new 0 cs)"

definition str_replace :: "string \<Rightarrow> string \<Rightarrow> string \<Rightarrow> string" where
  \<comment> \<open>\<^verbatim>\<open>s.replace(old, new)\<close>: every occurrence, left to right, without overlap\<close>
  "str_replace s old new =
     (if old = [] then new @ concat (map (\<lambda>c. c # new) s) else replace_from old new 0 s)"

subsection \<open>Evaluation on numpy values\<close>

text \<open>
  The values \<^verbatim>\<open>eval\<close> meets: a Python integer (from a literal), a numpy scalar
  (\<open>ZeroD\<close>, shape \<^verbatim>\<open>()\<close>), a one-dimensional array and the empty two-dimensional array of
  shape \<^verbatim>\<open>(0, 0)\<close>. Arrays combine element by element under numpy's broadcasting rule.
  Where numpy would produce \<^verbatim>\<open>inf\<close> or \<^verbatim>\<open>nan\<close>, or a power that is not rational, and where
  Python would produce a float from integers, the result is \<open>Unmodelled\<close>.
\<close>

datatype nd = PyInt int | ZeroD rat | Arr "rat list" | Empty2D

fun rat_op :: "binop \<Rightarrow> rat \<Rightarrow> rat \<Rightarrow> error + rat" where
  "rat_op Add x y = Inr (x + y)"
| "rat_op Sub x y = Inr (x - y)"
| "rat_op Mul x y = Inr (x * y)"
| "rat_op Div x y = (if y = 0 then Inl (Unmodelled ''inf or nan'') else Inr (x / y))"
| "rat_op Pwr x y =
     (case quotient_of y of (n, d) \<Rightarrow>
        if d \<noteq> 1 then Inl (Unmodelled ''fractional power'')
        else if 0 \<le> n then Inr (x ^ nat n)
        else if x = 0 then Inl (Unmodelled ''inf or nan'')
        else Inr (1 / x ^ nat (- n)))"

fun int_op :: "binop \<Rightarrow> int \<Rightarrow> int \<Rightarrow> error + nd" where
  \<comment> \<open>Python 2 integers: \<^verbatim>\<open>/\<close> is floor division\<close>
  "int_op Add x y = Inr (PyInt (x + y))"
| "int_op Sub x y = Inr (PyInt (x - y))"
| "int_op Mul x y = Inr (PyInt (x * y))"
| "int_op Div x y = (if y = 0 then Inl ZeroDivisionError else Inr (PyInt (x div y)))"
| "int_op Pwr x y =
     (if 0 \<le> y then Inr (PyInt (x ^ nat y))
      else if x = 0 then Inl ZeroDivisionError
      else Inl (Unmodelled ''float from integers''))"

fun sequence :: "(error + 'a) list \<Rightarrow> error + 'a list" where
  "sequence [] = Inr []"
| "sequence (x # xs) =
     (case x of
        Inl e \<Rightarrow> Inl e
      | Inr v \<Rightarrow> (case sequence xs of Inl e \<Rightarrow> Inl e | Inr vs \<Rightarrow> Inr (v # vs)))"

definition arr :: "(error + rat) list \<Rightarrow> error + nd" where
  "arr xs = (case sequence xs of Inl e \<Rightarrow> Inl e | Inr vs \<Rightarrow> Inr (Arr vs))"

fun as_scalar :: "nd \<Rightarrow> rat option" where
  "as_scalar (PyInt i) = Some (of_int i)"
| "as_scalar (ZeroD x) = Some x"
| "as_scalar _ = None"

definition broadcast :: "binop \<Rightarrow> nd \<Rightarrow> nd \<Rightarrow> error + nd" where
  \<comment> \<open>neither operand is a scalar\<close>
  "broadcast b u v =
     (case (u, v) of
        (Arr xs, Arr ys) \<Rightarrow>
          (case (xs, ys) of
             ([x], _) \<Rightarrow> arr (map (rat_op b x) ys)
           | (_, [y]) \<Rightarrow> arr (map (\<lambda>x. rat_op b x y) xs)
           | _ \<Rightarrow> if length xs = length ys then arr (map2 (rat_op b) xs ys) else Inl ValueError)
      | (Arr xs, _) \<Rightarrow> if length xs \<le> 1 then Inr Empty2D else Inl ValueError
      | (_, Arr ys) \<Rightarrow> if length ys \<le> 1 then Inr Empty2D else Inl ValueError
      | _ \<Rightarrow> Inr Empty2D)"

definition apply_bin :: "binop \<Rightarrow> nd \<Rightarrow> nd \<Rightarrow> error + nd" where
  "apply_bin b u v =
     (case (u, v) of
        (PyInt x, PyInt y) \<Rightarrow> int_op b x y
      | _ \<Rightarrow>
          (case (as_scalar u, as_scalar v) of
             (Some x, Some y) \<Rightarrow> (case rat_op b x y of Inl e \<Rightarrow> Inl e | Inr z \<Rightarrow> Inr (ZeroD z))
           | (Some x, None) \<Rightarrow> (case v of Arr ys \<Rightarrow> arr (map (rat_op b x) ys) | _ \<Rightarrow> Inr Empty2D)
           | (None, Some y) \<Rightarrow> (case u of Arr xs \<Rightarrow> arr (map (\<lambda>x. rat_op b x y) xs) | _ \<Rightarrow> Inr Empty2D)
           | (None, None) \<Rightarrow> broadcast b u v))"

fun negate :: "nd \<Rightarrow> nd" where
  "negate (PyInt i) = PyInt (- i)"
| "negate (ZeroD x) = ZeroD (- x)"
| "negate (Arr xs) = Arr (map uminus xs)"
| "negate Empty2D = Empty2D"

fun eval_rpn :: "(string \<times> nd) list \<Rightarrow> instr list \<Rightarrow> nd list \<Rightarrow> error + nd" where
  "eval_rpn env [] stack = (case stack of [v] \<Rightarrow> Inr v | _ \<Rightarrow> Inl ParseError)"
| "eval_rpn env (IPush n # prog) stack = eval_rpn env prog (PyInt (int n) # stack)"
| "eval_rpn env (ILoad x # prog) stack =
     (case map_of env x of
        None \<Rightarrow> Inl (NameError x)
      | Some v \<Rightarrow> eval_rpn env prog (v # stack))"
| "eval_rpn env (IBin b # prog) stack =
     (case stack of
        v # u # rest \<Rightarrow>
          (case apply_bin b u v of Inl e \<Rightarrow> Inl e | Inr w \<Rightarrow> eval_rpn env prog (w # rest))
      | _ \<Rightarrow> Inl ParseError)"
| "eval_rpn env (INeg # prog) stack =
     (case stack of u # rest \<Rightarrow> eval_rpn env prog (negate u # rest) | _ \<Rightarrow> Inl ParseError)"
| "eval_rpn env (IPos # prog) stack =
     (case stack of u # rest \<Rightarrow> eval_rpn env prog (u # rest) | _ \<Rightarrow> Inl ParseError)"

definition py_eval :: "string \<Rightarrow> (string \<times> nd) list \<Rightarrow> error + nd" where
  \<comment> \<open>\<^verbatim>\<open>eval(source, dico_value)\<close>: the text is compiled first, then computed left to right\<close>
  "py_eval source env =
     (case python_tokens source of
        Inl e \<Rightarrow> Inl e
      | Inr ts \<Rightarrow>
          (case to_rpn ts True [] of
             Inl e \<Rightarrow> Inl e
           | Inr prog \<Rightarrow> eval_rpn env prog []))"

section \<open>The Variable Resolver: get\_or\_construct\_value\<close>

text \<open>
  The registry \<^verbatim>\<open>index_by_variable\<close> is a dict from variable names to constraint sets; the
  list of its items gives its iteration order. The result of a resolution is a one-column
  DataFrame indexed by year, \<open>Serie name rows\<close>, or \<^verbatim>\<open>pandas.DataFrame()\<close>, \<open>NoSerie\<close>.
\<close>

type_synonym registry = "(string \<times> entry) list"

datatype serie = Serie string "(int \<times> rat) list" | NoSerie

definition dict_get :: "entry \<Rightarrow> string \<Rightarrow> pyval" where
  \<comment> \<open>\<^verbatim>\<open>variable.get(key)\<close>\<close>
  "dict_get d key = (case map_of d key of None \<Rightarrow> PNone | Some v \<Rightarrow> v)"

fun truthy :: "pyval \<Rightarrow> bool" where
  "truthy PNone = False"
| "truthy (PStr s) = (s \<noteq> [])"
| "truthy (PBool b) = b"
| "truthy (PInt i) = (i \<noteq> 0)"
| "truthy (PNum r) = (r \<noteq> 0)"

fun squeeze :: "serie \<Rightarrow> nd" where
  \<comment> \<open>\<^verbatim>\<open>variable_value.values.squeeze()\<close>: every axis of length one is removed\<close>
  "squeeze NoSerie = Empty2D"
| "squeeze (Serie name [p]) = ZeroD (snd p)"
| "squeeze (Serie name ps) = Arr (map snd ps)"

fun serie_index :: "serie \<Rightarrow> int list" where
  "serie_index NoSerie = []"
| "serie_index (Serie name ps) = map fst ps"

fun py_len :: "nd \<Rightarrow> error + nat" where
  \<comment> \<open>\<^verbatim>\<open>len(x)\<close>: "len() of unsized object" on a numpy scalar\<close>
  "py_len (Arr xs) = Inr (length xs)"
| "py_len Empty2D = Inr 0"
| "py_len (ZeroD x) = Inl TypeError"
| "py_len (PyInt i) = Inl TypeError"

definition print_lengths :: "string list \<Rightarrow> (string \<times> nd) list \<Rightarrow> error + nat list" where
  \<comment> \<open>\<^verbatim>\<open>for component in variables: print len(dico_value[component])\<close>\<close>
  "print_lengths vars dico_value =
     sequence (map (\<lambda>component. case map_of dico_value component of
                                   None \<Rightarrow> Inl (KeyError component)
                                 | Some v \<Rightarrow> py_len v) vars)"

definition new_frame :: "string \<Rightarrow> nd \<Rightarrow> int list \<Rightarrow> error + serie" where
  \<comment> \<open>\<^verbatim>\<open>pandas.DataFrame(data = {variable_name: data}, index = index)\<close>\<close>
  "new_frame variable_name data index =
     (case data of
        Arr xs \<Rightarrow>
          if length xs = length index then Inr (Serie variable_name (zip index xs))
          else Inl ValueError
      | Empty2D \<Rightarrow> Inl DataError
      | ZeroD x \<Rightarrow> Inr (Serie variable_name (map (\<lambda>y. (y, x)) index))
      | PyInt i \<Rightarrow> Inr (Serie variable_name (map (\<lambda>y. (y, of_int i)) index)))"

definition parse_formula :: "pyval \<Rightarrow> error + string list" where
  \<comment> \<open>\<^verbatim>\<open>parser_formula.parse(formula).variables()\<close>; the parser needs text\<close>
  "parse_formula formula = (case formula of PStr f \<Rightarrow> variables f | _ \<Rightarrow> Inl TypeError)"

definition formula_text :: "pyval \<Rightarrow> string" where
  "formula_text formula = (case formula of PStr f \<Rightarrow> f | _ \<Rightarrow> [])"

text \<open>
  The state of the first loop: \<^verbatim>\<open>final_formula\<close> and \<^verbatim>\<open>index\<close> are unbound until its
  first pass, \<^verbatim>\<open>dico_value\<close> starts empty.
\<close>

type_synonym loop_state = "string option \<times> (string \<times> nd) list \<times> int list option"

text \<open>
  The \<^verbatim>\<open>print\<close> statements of the source write to the standard output and are left out,
  but for the two that can raise: \<^verbatim>\<open>print len(dico_value[component])\<close>, on a component with
  a single row, and \<^verbatim>\<open>print index\<close>, when the formula mentions no variable and the loop
  has bound nothing.
\<close>

definition construct :: "string \<Rightarrow> string \<Rightarrow> string list \<Rightarrow> loop_state \<Rightarrow> error + (serie \<times> string)" where
  \<comment> \<open>the derived branch after its first loop\<close>
  "construct variable_name formula vars st =
     (case st of (final_formula, dico_value, index) \<Rightarrow>
        let formula_modified = str_replace formula ''^'' ''**'' in
        (case print_lengths vars dico_value of
           Inl e \<Rightarrow> Inl e
         | Inr _ \<Rightarrow>
             (case py_eval formula_modified dico_value of
                Inl e \<Rightarrow> Inl e
              | Inr data \<Rightarrow>
                  (case index of
                     None \<Rightarrow> Inl UnboundLocalError
                   | Some idx \<Rightarrow>
                       (case new_frame variable_name data idx of
                          Inl e \<Rightarrow> Inl e
                        | Inr serie \<Rightarrow>
                            (case final_formula of
                               None \<Rightarrow> Inl UnboundLocalError
                             | Some ff \<Rightarrow> Inr (serie, ff)))))))"

definition the_registry :: "string \<Rightarrow> registry option \<Rightarrow> registry" where
  \<comment> \<open>\<^verbatim>\<open>if index_by_variable is None: index_by_variable = {variable_name: {'code': variable_name}}\<close>\<close>
  "the_registry variable_name index_by_variable =
     (case index_by_variable of
        None \<Rightarrow> [(variable_name, [(''code'', PStr variable_name)])]
      | Some d \<Rightarrow> d)"

definition direct :: "string \<Rightarrow> frame \<Rightarrow> serie" where
  \<comment> \<open>\<^verbatim>\<open>entry_df.set_index('year')[['value']]\<close>, the column renamed\<close>
  "direct variable_name entry_df =
     Serie variable_name (map (\<lambda>r. (year r, val r)) (frame_rows entry_df))"

text \<open>
  What \<^verbatim>\<open>get_or_construct_value\<close> does before it calls itself: it finds the definition
  of the variable, runs the Row Filter, and either returns (the two first branches of
  its \<^verbatim>\<open>if\<close>, or an exception) or has the formula parsed.
\<close>

datatype first_step = Return "error + (serie \<times> string)" | Derived string "string list"

definition first_step :: "row list \<Rightarrow> string \<Rightarrow> registry \<Rightarrow> int list \<Rightarrow> first_step" where
  "first_step df variable_name index_by_variable years =
     (case map_of index_by_variable variable_name of
        None \<Rightarrow> Return (Inl (KeyError variable_name))
      | Some variable \<Rightarrow>
          let formula = dict_get variable ''formula'' in
          (case look_up df variable years of
             Inl e \<Rightarrow> Return (Inl e)
           | Inr entry_df \<Rightarrow>
               if \<not> frame_empty entry_df
               then Return (Inr (direct variable_name entry_df, variable_name))
               else if \<not> truthy formula \<and> frame_empty entry_df
               then Return (Inr (NoSerie, []))
               else
                 (case parse_formula formula of
                    Inl e \<Rightarrow> Return (Inl e)
                  | Inr vars \<Rightarrow> Derived (formula_text formula) vars)))"

text \<open>
  \<open>depth\<close> is the number of nested calls the interpreter still allows: a registry whose
  formulas refer to each other in a cycle ends in Python's RuntimeError.
\<close>

fun get_or_construct_value ::
    "nat \<Rightarrow> row list \<Rightarrow> string \<Rightarrow> registry option \<Rightarrow> int list \<Rightarrow> error + (serie \<times> string)"
  and components_loop ::
    "nat \<Rightarrow> row list \<Rightarrow> registry \<Rightarrow> int list \<Rightarrow> string \<Rightarrow> string list \<Rightarrow> loop_state \<Rightarrow> error + loop_state"
where
  "get_or_construct_value 0 df variable_name index_by_variable years = Inl RuntimeError"
| "get_or_construct_value (Suc depth) df variable_name index_by_variable years =
     (case first_step df variable_name (the_registry variable_name index_by_variable) years of
        Return r \<Rightarrow> r
      | Derived formula vars \<Rightarrow>
          (case components_loop depth df (the_registry variable_name index_by_variable) years
                  formula vars (None, [], None) of
             Inl e \<Rightarrow> Inl e
           | Inr st \<Rightarrow> construct variable_name formula vars st))"
| "components_loop depth df index_by_variable years formula [] st = Inr st"
| "components_loop depth df index_by_variable years formula (component # rest) st =
     (case get_or_construct_value depth df component (Some index_by_variable) years of
        Inl e \<Rightarrow> Inl e
      | Inr (variable_value, variable_formula) \<Rightarrow>
          components_loop depth df index_by_variable years formula rest
            (Some (str_replace formula component (''('' @ variable_formula @ '')'')),
             (component, squeeze variable_value) # fst (snd st),
             Some (serie_index variable_value)))"

section \<open>The libraries as parameters\<close>

text \<open>
  Three calls of the source leave the program:
  \<^verbatim>\<open>df['description'].str.contains(value)\<close>, which is pandas on top of \<^verbatim>\<open>re\<close>;
  \<^verbatim>\<open>Parser().parse(formula).variables()\<close>, which is py\_expression\_eval; and
  \<^verbatim>\<open>eval(formula_modified, dico_value)\<close>, which is the interpreter on numpy values.
  \<open>str_contains\<close>, \<open>parse_formula\<close> and \<open>py_eval\<close> above describe these calls on a part
  of their inputs and are \<open>Unmodelled\<close> on the rest: on a regular expression with a
  metacharacter other than the dot, on a formula outside the grammar or with a reserved
  name, on a value that is not a rational number.

  The definitions of this section are \<open>look_up\<close> and \<open>get_or_construct_value\<close> once more,
  line for line, with the three calls as parameters. A parameter takes the arguments of
  its call and gives the exception the call raises or the result it returns; nothing is
  assumed of it. What is proved of these definitions therefore holds whatever the
  libraries do, on every pattern and every formula; with \<open>model_library\<close> for the
  parameter, they are the functions above.
\<close>

record library =
  lib_contains :: "pyval \<Rightarrow> error + (string \<Rightarrow> bool)"
    \<comment> \<open>\<^verbatim>\<open>df['description'].str.contains(value)\<close>: the mask, as a test on a description\<close>
  lib_variables :: "pyval \<Rightarrow> error + string list"
    \<comment> \<open>\<^verbatim>\<open>Parser().parse(formula).variables()\<close>\<close>
  lib_eval :: "string \<Rightarrow> (string \<times> nd) list \<Rightarrow> error + nd"
    \<comment> \<open>\<^verbatim>\<open>eval(formula_modified, dico_value)\<close>\<close>

definition model_library :: library where
  "model_library = \<lparr>lib_contains = str_contains, lib_variables = parse_formula, lib_eval = py_eval\<rparr>"

fun look_up_items_with ::
    "(pyval \<Rightarrow> error + (string \<Rightarrow> bool)) \<Rightarrow> entry \<Rightarrow> frame \<Rightarrow> error + frame"
where
  "look_up_items_with contains [] result = Inr result"
| "look_up_items_with contains ((key, v) # items) result =
     (if v = PNone then look_up_items_with contains items result
      else if key = ''drop'' then look_up_items_with contains items result
      else if key \<noteq> ''description'' \<and> key \<noteq> ''formula'' then
        (case getitem_col key of
           None \<Rightarrow> Inl (KeyError key)
         | Some col \<Rightarrow>
             let result' = getitem_bool result (\<lambda>r. py_eq (col r) v)
             in look_up_items_with contains items (if frame_empty result' then NoFrame else result'))
      else if key = ''description'' then
        (case contains v of
           Inl e \<Rightarrow> Inl e
         | Inr found \<Rightarrow>
             look_up_items_with contains items (getitem_bool result (\<lambda>r. found (description r))))
      else look_up_items_with contains items NoFrame)"

definition look_up_with ::
    "(pyval \<Rightarrow> error + (string \<Rightarrow> bool)) \<Rightarrow> row list \<Rightarrow> entry \<Rightarrow> int list \<Rightarrow> error + frame"
where
  "look_up_with contains df entry_by_index years =
     look_up_items_with contains entry_by_index (DataFrame (filter (\<lambda>r. year r \<in> set years) df))"

definition construct_with ::
    "library \<Rightarrow> string \<Rightarrow> string \<Rightarrow> string list \<Rightarrow> loop_state \<Rightarrow> error + (serie \<times> string)"
where
  "construct_with lib variable_name formula vars st =
     (case st of (final_formula, dico_value, index) \<Rightarrow>
        let formula_modified = str_replace formula ''^'' ''**'' in
        (case print_lengths vars dico_value of
           Inl e \<Rightarrow> Inl e
         | Inr _ \<Rightarrow>
             (case lib_eval lib formula_modified dico_value of
                Inl e \<Rightarrow> Inl e
              | Inr data \<Rightarrow>
                  (case index of
                     None \<Rightarrow> Inl UnboundLocalError
                   | Some idx \<Rightarrow>
                       (case new_frame variable_name data idx of
                          Inl e \<Rightarrow> Inl e
                        | Inr serie \<Rightarrow>
                            (case final_formula of
                               None \<Rightarrow> Inl UnboundLocalError
                             | Some ff \<Rightarrow> Inr (serie, ff)))))))"

definition first_step_with ::
    "library \<Rightarrow> row list \<Rightarrow> string \<Rightarrow> registry \<Rightarrow> int list \<Rightarrow> first_step"
where
  "first_step_with lib df variable_name index_by_variable years =
     (case map_of index_by_variable variable_name of
        None \<Rightarrow> Return (Inl (KeyError variable_name))
      | Some variable \<Rightarrow>
          let formula = dict_get variable ''formula'' in
          (case look_up_with (lib_contains lib) df variable years of
             Inl e \<Rightarrow> Return (Inl e)
           | Inr entry_df \<Rightarrow>
               if \<not> frame_empty entry_df
               then Return (Inr (direct variable_name entry_df, variable_name))
               else if \<not> truthy formula \<and> frame_empty entry_df
               then Return (Inr (NoSerie, []))
               else
                 (case lib_variables lib formula of
                    Inl e \<Rightarrow> Return (Inl e)
                  | Inr vars \<Rightarrow> Derived (formula_text formula) vars)))"

fun get_or_construct_value_with ::
    "library \<Rightarrow> nat \<Rightarrow> row list \<Rightarrow> string \<Rightarrow> registry option \<Rightarrow> int list
      \<Rightarrow> error + (serie \<times> string)"
  and components_loop_with ::
    "library \<Rightarrow> nat \<Rightarrow> row list \<Rightarrow> registry \<Rightarrow> int list \<Rightarrow> string \<Rightarrow> string list \<Rightarrow> loop_state
      \<Rightarrow> error + loop_state"
where
  "get_or_construct_value_with lib 0 df variable_name index_by_variable years = Inl RuntimeError"
| "get_or_construct_value_with lib (Suc depth) df variable_name index_by_variable years =
     (case first_step_with lib df variable_name (the_registry variable_name index_by_variable) years of
        Return r \<Rightarrow> r
      | Derived formula vars \<Rightarrow>
          (case components_loop_with lib depth df (the_registry variable_name index_by_variable) years
                  formula vars (None, [], None) of
             Inl e \<Rightarrow> Inl e
           | Inr st \<Rightarrow> construct_with lib variable_name formula vars st))"
| "components_loop_with lib depth df index_by_variable years formula [] st = Inr st"
| "components_loop_with lib depth df index_by_variable years formula (component # rest) st =
     (case get_or_construct_value_with lib depth df component (Some index_by_variable) years of
        Inl e \<Rightarrow> Inl e
      | Inr (variable_value, variable_formula) \<Rightarrow>
          components_loop_with lib depth df index_by_variable years formula rest
            (Some (str_replace formula component (''('' @ variable_formula @ '')'')),
             (component, squeeze variable_value) # fst (snd st),
             Some (serie_index variable_value)))"

section \<open>The Batch Resolver: get\_or\_construct\_data\<close>

text \<open>
  The combined table starts as \<^verbatim>\<open>pandas.DataFrame()\<close> and grows by
  \<^verbatim>\<open>pandas.concat((result, variable_values), axis = 1)\<close>, which joins the two frames on
  their index: the index of the outcome is the union of the two indexes, the columns of
  \<open>result\<close> are followed by the column of \<open>variable_values\<close>, and a column has NaN at the
  years of the union that its own index does not hold. \<^verbatim>\<open>pandas.DataFrame()\<close> has no
  column and an empty index, so that putting it beside a table changes nothing.

  A table is kept as the set of the years of its index and the list of its columns, a
  column being its name and the partial map from a year to the value it holds there: no
  value is NaN. The order of the rows, which pandas takes from the order of the indexes
  it joins, is not kept. The join is on labels that occur once; a frame whose index
  repeats a year is \<open>Unmodelled\<close>.
\<close>

type_synonym table = "int set \<times> (string \<times> (int \<rightharpoonup> rat)) list"

definition concat_columns :: "table \<Rightarrow> serie \<Rightarrow> error + table" where
  "concat_columns result variable_values =
     (case variable_values of
        NoSerie \<Rightarrow> Inr result
      | Serie name ps \<Rightarrow>
          if distinct (map fst ps)
          then Inr (fst result \<union> set (map fst ps), snd result @ [(name, map_of ps)])
          else Inl (Unmodelled ''repeated year in the index''))"

definition underscores_to_spaces :: "string \<Rightarrow> string" where
  \<comment> \<open>\<^verbatim>\<open>variable.replace('_', ' ')\<close>\<close>
  "underscores_to_spaces s = map (\<lambda>c. if c = CHR ''_'' then CHR '' '' else c) s"

fun data_loop ::
    "library \<Rightarrow> nat \<Rightarrow> row list \<Rightarrow> registry \<Rightarrow> int list \<Rightarrow> string list
      \<Rightarrow> table \<times> (string \<rightharpoonup> string) \<Rightarrow> error + (table \<times> (string \<rightharpoonup> string))"
where
  "data_loop lib depth df variable_dictionary years [] acc = Inr acc"
| "data_loop lib depth df variable_dictionary years (variable # rest) acc =
     (case get_or_construct_value_with lib depth df variable (Some variable_dictionary) years of
        Inl e \<Rightarrow> Inl e
      | Inr (variable_values, variable_formula) \<Rightarrow>
          (case map_of variable_dictionary variable of
             None \<Rightarrow> Inl (KeyError variable)
           | Some d \<Rightarrow>
               let formulas =
                     (if dict_get d ''formula'' \<noteq> PNone
                      then (snd acc)(underscores_to_spaces variable \<mapsto> variable_formula)
                      else snd acc)
               in if \<not> truthy (dict_get d ''drop'') then
                    (case concat_columns (fst acc) variable_values of
                       Inl e \<Rightarrow> Inl e
                     | Inr result \<Rightarrow>
                         data_loop lib depth df variable_dictionary years rest (result, formulas))
                  else data_loop lib depth df variable_dictionary years rest (fst acc, formulas)))"

definition get_or_construct_data ::
    "library \<Rightarrow> nat \<Rightarrow> row list \<Rightarrow> registry \<Rightarrow> int list \<Rightarrow> error + (table \<times> (string \<rightharpoonup> string))"
where
  "get_or_construct_data lib depth df variable_dictionary years =
     data_loop lib depth df variable_dictionary years (map fst variable_dictionary)
       (({}, []), Map.empty)"

section \<open>What a constraint set asks of a row\<close>

text \<open>
  The reading of a constraint set that the properties below are stated against. A null
  value and the key \<^verbatim>\<open>drop\<close> ask nothing; no row satisfies a formula; the description is
  searched; every other key names a column whose cell has to equal the value.
\<close>

definition satisfies :: "string \<Rightarrow> pyval \<Rightarrow> row \<Rightarrow> bool" where
  "satisfies key v r =
     (if v = PNone \<or> key = ''drop'' then True
      else if key = ''formula'' then False
      else if key = ''description'' then
        (case str_contains v of Inr found \<Rightarrow> found (description r) | Inl e \<Rightarrow> False)
      else (case getitem_col key of Some col \<Rightarrow> py_eq (col r) v | None \<Rightarrow> False))"

definition matches :: "entry \<Rightarrow> row \<Rightarrow> bool" where
  "matches c r = list_all (\<lambda>(key, v). satisfies key v r) c"

text \<open>The constraints on which the loop of \<^verbatim>\<open>look_up\<close> raises nothing.\<close>

definition applicable :: "string \<Rightarrow> pyval \<Rightarrow> bool" where
  "applicable key v =
     (v = PNone \<or> key = ''drop'' \<or> key = ''formula''
      \<or> (if key = ''description'' then \<not> isl (str_contains v) else getitem_col key \<noteq> None))"

text \<open>The same, for the loop that takes \<^verbatim>\<open>str.contains\<close> as a parameter.\<close>

definition applicable_with :: "(pyval \<Rightarrow> error + (string \<Rightarrow> bool)) \<Rightarrow> string \<Rightarrow> pyval \<Rightarrow> bool" where
  "applicable_with contains key v =
     (v = PNone \<or> key = ''drop'' \<or> key = ''formula''
      \<or> (if key = ''description'' then \<not> isl (contains v) else getitem_col key \<noteq> None))"

section \<open>The same operations on a store of objects\<close>

text \<open>
  A DataFrame is a mutable object, and the table a caller passes is shared with the
  callee. To say what happens to it, the operations are written once more over a store:
  a list of objects, a reference being a position in it. Every pandas operation of the
  source that yields a frame (\<^verbatim>\<open>copy\<close>, indexing by a mask or by a list of columns,
  \<^verbatim>\<open>set_index\<close>, the constructor) allocates a new object; the one statement that writes into
  an existing object is \<^verbatim>\<open>serie.columns = [variable_name]\<close>. The local dict
  \<^verbatim>\<open>dico_value\<close> holds arrays, not frames, and stays a value. A reference that points
  outside the store reads as an empty frame; Python has no such reference.
\<close>

datatype obj = Table frame | Column serie

type_synonym heap = "obj list"

definition alloc :: "obj \<Rightarrow> heap \<Rightarrow> nat \<times> heap" where
  "alloc x h = (length h, h @ [x])"

definition deref :: "heap \<Rightarrow> nat \<Rightarrow> obj" where
  "deref h a = (if a < length h then h ! a else Table NoFrame)"

definition table_at :: "heap \<Rightarrow> nat \<Rightarrow> frame" where
  "table_at h a = (case deref h a of Table f \<Rightarrow> f | Column s \<Rightarrow> NoFrame)"

definition column_at :: "heap \<Rightarrow> nat \<Rightarrow> serie" where
  "column_at h a = (case deref h a of Column s \<Rightarrow> s | Table f \<Rightarrow> NoSerie)"

definition copy :: "nat \<Rightarrow> heap \<Rightarrow> nat \<times> heap" where
  \<comment> \<open>\<^verbatim>\<open>x.copy()\<close>\<close>
  "copy a h = alloc (deref h a) h"

definition select_copy :: "nat \<Rightarrow> (row \<Rightarrow> bool) \<Rightarrow> heap \<Rightarrow> nat \<times> heap" where
  \<comment> \<open>\<^verbatim>\<open>result[mask].copy()\<close>: the selection is an object, its copy another\<close>
  "select_copy a P h =
     (case alloc (Table (getitem_bool (table_at h a) P)) h of (selected, h1) \<Rightarrow> copy selected h1)"

fun look_up_items_h :: "entry \<Rightarrow> nat \<Rightarrow> heap \<Rightarrow> (error + nat) \<times> heap" where
  "look_up_items_h [] result h = (Inr result, h)"
| "look_up_items_h ((key, v) # items) result h =
     (if v = PNone then look_up_items_h items result h
      else if key = ''drop'' then look_up_items_h items result h
      else if key \<noteq> ''description'' \<and> key \<noteq> ''formula'' then
        (case getitem_col key of
           None \<Rightarrow> (Inl (KeyError key), h)
         | Some col \<Rightarrow>
             let s = select_copy result (\<lambda>r. py_eq (col r) v) h
             in if frame_empty (table_at (snd s) (fst s))
                then look_up_items_h items (fst (alloc (Table NoFrame) (snd s)))
                       (snd (alloc (Table NoFrame) (snd s)))
                else look_up_items_h items (fst s) (snd s))
      else if key = ''description'' then
        (case str_contains v of
           Inl e \<Rightarrow> (Inl e, h)
         | Inr found \<Rightarrow>
             let s = select_copy result (\<lambda>r. found (description r)) h
             in look_up_items_h items (fst s) (snd s))
      else look_up_items_h items (fst (alloc (Table NoFrame) h)) (snd (alloc (Table NoFrame) h)))"

definition look_up_h :: "nat \<Rightarrow> entry \<Rightarrow> int list \<Rightarrow> heap \<Rightarrow> (error + nat) \<times> heap" where
  "look_up_h df entry_by_index years h =
     (case copy df h of (result, h1) \<Rightarrow>
        (case select_copy result (\<lambda>r. year r \<in> set years) h1 of (result1, h2) \<Rightarrow>
           look_up_items_h entry_by_index result1 h2))"

fun rename :: "string \<Rightarrow> serie \<Rightarrow> serie" where
  "rename name (Serie old ps) = Serie name ps"
| "rename name NoSerie = NoSerie"

definition direct_h :: "string \<Rightarrow> nat \<Rightarrow> heap \<Rightarrow> nat \<times> heap" where
  \<comment> \<open>the direct-hit branch: three new frames, the last one renamed in place\<close>
  "direct_h variable_name entry_df h =
     (case alloc (deref h entry_df) h of (indexed, h1) \<Rightarrow>
        (case alloc (Column (direct ''value'' (table_at h1 indexed))) h1 of (selected, h2) \<Rightarrow>
           (case copy selected h2 of (serie, h3) \<Rightarrow>
              (serie, h3[serie := Column (rename variable_name (column_at h3 serie))]))))"

datatype first_step_h = ReturnH "error + (nat \<times> string)" | DerivedH string "string list"

definition first_step_h ::
    "nat \<Rightarrow> string \<Rightarrow> registry \<Rightarrow> int list \<Rightarrow> heap \<Rightarrow> first_step_h \<times> heap" where
  "first_step_h df variable_name index_by_variable years h =
     (case map_of index_by_variable variable_name of
        None \<Rightarrow> (ReturnH (Inl (KeyError variable_name)), h)
      | Some variable \<Rightarrow>
          let formula = dict_get variable ''formula'' in
          (case look_up_h df variable years h of
             (Inl e, h1) \<Rightarrow> (ReturnH (Inl e), h1)
           | (Inr entry_df, h1) \<Rightarrow>
               if \<not> frame_empty (table_at h1 entry_df) then
                 (case direct_h variable_name entry_df h1 of
                    (serie, h2) \<Rightarrow> (ReturnH (Inr (serie, variable_name)), h2))
               else if \<not> truthy formula \<and> frame_empty (table_at h1 entry_df) then
                 (case alloc (Column NoSerie) h1 of
                    (serie, h2) \<Rightarrow> (ReturnH (Inr (serie, [])), h2))
               else
                 (case parse_formula formula of
                    Inl e \<Rightarrow> (ReturnH (Inl e), h1)
                  | Inr vars \<Rightarrow> (DerivedH (formula_text formula) vars, h1))))"

definition construct_h ::
    "string \<Rightarrow> string \<Rightarrow> string list \<Rightarrow> loop_state \<Rightarrow> heap \<Rightarrow> (error + (nat \<times> string)) \<times> heap" where
  "construct_h variable_name formula vars st h =
     (case construct variable_name formula vars st of
        Inl e \<Rightarrow> (Inl e, h)
      | Inr (serie, final_formula) \<Rightarrow>
          (case alloc (Column serie) h of (a, h1) \<Rightarrow> (Inr (a, final_formula), h1)))"

fun get_or_construct_value_h ::
    "nat \<Rightarrow> nat \<Rightarrow> string \<Rightarrow> registry option \<Rightarrow> int list \<Rightarrow> heap \<Rightarrow> (error + (nat \<times> string)) \<times> heap"
  and components_loop_h ::
    "nat \<Rightarrow> nat \<Rightarrow> registry \<Rightarrow> int list \<Rightarrow> string \<Rightarrow> string list \<Rightarrow> loop_state \<Rightarrow> heap
      \<Rightarrow> (error + loop_state) \<times> heap"
where
  "get_or_construct_value_h 0 df variable_name index_by_variable years h = (Inl RuntimeError, h)"
| "get_or_construct_value_h (Suc depth) df variable_name index_by_variable years h =
     (case first_step_h (fst (copy df h)) variable_name
             (the_registry variable_name index_by_variable) years (snd (copy df h)) of
        (ReturnH r, h1) \<Rightarrow> (r, h1)
      | (DerivedH formula vars, h1) \<Rightarrow>
          (case components_loop_h depth (fst (copy df h))
                  (the_registry variable_name index_by_variable) years formula vars
                  (None, [], None) h1 of
             (Inl e, h2) \<Rightarrow> (Inl e, h2)
           | (Inr st, h2) \<Rightarrow> construct_h variable_name formula vars st h2))"
| "components_loop_h depth df index_by_variable years formula [] st h = (Inr st, h)"
| "components_loop_h depth df index_by_variable years formula (component # rest) st h =
     (case get_or_construct_value_h depth df component (Some index_by_variable) years h of
        (Inl e, h1) \<Rightarrow> (Inl e, h1)
      | (Inr (variable_value, variable_formula), h1) \<Rightarrow>
          components_loop_h depth df index_by_variable years formula rest
            (Some (str_replace formula component (''('' @ variable_formula @ '')'')),
             (component, squeeze (column_at h1 variable_value)) # fst (snd st),
             Some (serie_index (column_at h1 variable_value)))
            h1)"

definition extends :: "heap \<Rightarrow> heap \<Rightarrow> bool" where
  \<comment> \<open>\<open>h'\<close> is \<open>h\<close> followed by new objects: no object of \<open>h\<close> has changed\<close>
  "extends h h' = (take (length h) h' = h)"

text \<open>
  How a result on the store stands for a result of the functions above: the same
  exception, or a reference into the new store to the same frame.
\<close>

definition refines_table :: "(error + nat) \<times> heap \<Rightarrow> error + frame \<Rightarrow> bool" where
  "refines_table R p =
     (case R of
        (Inl e, h') \<Rightarrow> p = Inl e
      | (Inr a, h') \<Rightarrow> a < length h' \<and> p = Inr (table_at h' a))"

definition refines_serie :: "(error + (nat \<times> string)) \<times> heap \<Rightarrow> error + (serie \<times> string) \<Rightarrow> bool" where
  "refines_serie R p =
     (case R of
        (Inl e, h') \<Rightarrow> p = Inl e
      | (Inr (a, f), h') \<Rightarrow> a < length h' \<and> p = Inr (column_at h' a, f))"

definition refines_step :: "first_step_h \<times> heap \<Rightarrow> first_step \<Rightarrow> bool" where
  "refines_step R p =
     (case R of
        (ReturnH r, h') \<Rightarrow> (\<exists>q. p = Return q \<and> refines_serie (r, h') q)
      | (DerivedH f vars, h') \<Rightarrow> p = Derived f vars)"

section \<open>The Row Filter as the specification words it\<close>

text \<open>
  The specification has the Row Filter stop at the first equality constraint that leaves
  no row: "the operation short-circuits to an explicitly empty result, subsequent
  constraints are skipped once empty". This is that reading, for comparison with
  \<open>look_up\<close>; it differs from \<open>look_up_items\<close> in the equality branch only.
\<close>

fun short_circuit_items :: "entry \<Rightarrow> frame \<Rightarrow> error + frame" where
  "short_circuit_items [] result = Inr result"
| "short_circuit_items ((key, v) # items) result =
     (if v = PNone then short_circuit_items items result
      else if key = ''drop'' then short_circuit_items items result
      else if key \<noteq> ''description'' \<and> key \<noteq> ''formula'' then
        (case getitem_col key of
           None \<Rightarrow> Inl (KeyError key)
         | Some col \<Rightarrow>
             let result' = getitem_bool result (\<lambda>r. py_eq (col r) v)
             in if frame_empty result' then Inr NoFrame else short_circuit_items items result')
      else if key = ''description'' then
        (case str_contains v of
           Inl e \<Rightarrow> Inl e
         | Inr found \<Rightarrow> short_circuit_items items (getitem_bool result (\<lambda>r. found (description r))))
      else short_circuit_items items NoFrame)"

definition look_up_short_circuit :: "row list \<Rightarrow> entry \<Rightarrow> int list \<Rightarrow> error + frame" where
  "look_up_short_circuit df entry_by_index years =
     short_circuit_items entry_by_index (DataFrame (filter (\<lambda>r. year r \<in> set years) df))"

section \<open>Substring containment\<close>

text \<open>
  Python's \<^verbatim>\<open>pat in s\<close>, and the match of a constraint as the specification describes it:
  the description by substring containment, every other field by equality.
\<close>

fun starts_with :: "string \<Rightarrow> string \<Rightarrow> bool" where
  "starts_with [] s = True"
| "starts_with (p # ps) [] = False"
| "starts_with (p # ps) (c # cs) = (p = c \<and> starts_with ps cs)"

fun py_in :: "string \<Rightarrow> string \<Rightarrow> bool" where
  "py_in pat [] = starts_with pat []"
| "py_in pat (c # cs) = (starts_with pat (c # cs) \<or> py_in pat cs)"

definition substring_satisfies :: "string \<Rightarrow> pyval \<Rightarrow> row \<Rightarrow> bool" where
  "substring_satisfies key v r =
     (if v = PNone \<or> key = ''drop'' then True
      else if key = ''description'' then
        (case v of PStr pat \<Rightarrow> py_in pat (description r) | _ \<Rightarrow> False)
      else (case getitem_col key of Some col \<Rightarrow> py_eq (col r) v | None \<Rightarrow> False))"

section \<open>Example data\<close>

definition row_of :: "string \<Rightarrow> int \<Rightarrow> rat \<Rightarrow> row" where
  "row_of c y v =
     \<lparr>code = c, institution = ''S1'', ressources = False, year = y,
      description = ''PIB en volume'', val = v\<rparr>"

definition example_registry :: registry where
  \<comment> \<open>\<^verbatim>\<open>{X: {code: 'D41'}, Y: {code: 'D42'}, Z: {formula: 'X + Y'}}\<close>\<close>
  "example_registry =
     [(''X'', [(''code'', PStr ''D41'')]),
      (''Y'', [(''code'', PStr ''D42'')]),
      (''Z'', [(''formula'', PStr ''X + Y'')])]"

definition dangling_registry :: registry where
  \<comment> \<open>\<^verbatim>\<open>{X: {code: 'D41'}, Z: {formula: 'X + W'}}\<close>: no variable W\<close>
  "dangling_registry =
     [(''X'', [(''code'', PStr ''D41'')]),
      (''Z'', [(''formula'', PStr ''X + W'')])]"

definition two_codes_registry :: registry where
  \<comment> \<open>\<^verbatim>\<open>{X: {code: 'D41'}, Y: {code: 'D42'}}\<close>\<close>
  "two_codes_registry = [(''X'', [(''code'', PStr ''D41'')]), (''Y'', [(''code'', PStr ''D42'')])]"

definition two_years :: "row list" where
  "two_years =
     [row_of ''D41'' 1999 10, row_of ''D42'' 1999 5, row_of ''D41'' 2000 11, row_of ''D42'' 2000 6]"

definition dropping_x_registry :: registry where
  \<comment> \<open>\<^verbatim>\<open>{X: {code: 'D41', drop: True}, Y: {code: 'D42'}, Z: {formula: 'X * 2'}}\<close>\<close>
  "dropping_x_registry =
     [(''X'', [(''code'', PStr ''D41''), (''drop'', PBool True)]),
      (''Y'', [(''code'', PStr ''D42'')]),
      (''Z'', [(''formula'', PStr ''X * 2'')])]"

definition uneven_years :: "row list" where
  \<comment> \<open>code D41 in 1999 and 2000, code D42 in 2000 and 2001\<close>
  "uneven_years =
     [row_of ''D41'' 1999 10, row_of ''D41'' 2000 11, row_of ''D42'' 2000 6, row_of ''D42'' 2001 7]"

section \<open>What the Batch Resolver is expected to collect\<close>

text \<open>
  The pieces a variable contributes, given its definition and the series and formula it
  resolves to: the years it adds to the index of the combined table, the column it adds,
  holding at each year the value of the series at that year, and the entry it adds to the
  formulas.
\<close>

fun columns_of :: "serie \<Rightarrow> (string \<times> (int \<rightharpoonup> rat)) list" where
  "columns_of NoSerie = []"
| "columns_of (Serie name ps) = [(name, map_of ps)]"

definition kept_years :: "string \<times> entry \<Rightarrow> serie \<times> string \<Rightarrow> int set" where
  "kept_years item r =
     (if truthy (dict_get (snd item) ''drop'') then {} else set (serie_index (fst r)))"

definition kept_columns ::
    "string \<times> entry \<Rightarrow> serie \<times> string \<Rightarrow> (string \<times> (int \<rightharpoonup> rat)) list"
where
  "kept_columns item r = (if truthy (dict_get (snd item) ''drop'') then [] else columns_of (fst r))"

definition formula_entry :: "string \<times> entry \<Rightarrow> serie \<times> string \<Rightarrow> (string \<times> string) list" where
  "formula_entry item r =
     (if dict_get (snd item) ''formula'' \<noteq> PNone then [(underscores_to_spaces (fst item), snd r)]
      else [])"

section \<open>Properties of the Row Filter\<close>

lemma frame_rows_getitem_bool: "frame_rows (getitem_bool f P) = filter P (frame_rows f)"
  by (cases f) (simp_all add: getitem_bool_def)

lemma frame_empty_NoFrame: "frame_empty NoFrame"
  by (simp add: frame_empty_def)

lemma look_up_items_skip:
  "v = PNone \<or> key = ''drop'' \<Longrightarrow> look_up_items ((key, v) # c) f = look_up_items c f"
  by auto

lemma look_up_items_formula:
  "v \<noteq> PNone \<Longrightarrow> look_up_items ((''formula'', v) # c) f = look_up_items c NoFrame"
  by simp

lemma look_up_items_description:
  "v \<noteq> PNone \<Longrightarrow> look_up_items ((''description'', v) # c) f =
     (case str_contains v of
        Inl e \<Rightarrow> Inl e
      | Inr found \<Rightarrow> look_up_items c (getitem_bool f (\<lambda>r. found (description r))))"
  by simp

lemma look_up_items_equal:
  "v \<noteq> PNone \<Longrightarrow> key \<noteq> ''drop'' \<Longrightarrow> key \<noteq> ''description'' \<Longrightarrow> key \<noteq> ''formula'' \<Longrightarrow>
   look_up_items ((key, v) # c) f =
     (case getitem_col key of
        None \<Rightarrow> Inl (KeyError key)
      | Some col \<Rightarrow>
          look_up_items c (if frame_empty (getitem_bool f (\<lambda>r. py_eq (col r) v)) then NoFrame
                           else getitem_bool f (\<lambda>r. py_eq (col r) v)))"
  by (simp add: Let_def split: option.splits)

lemma constraint_cases:
  obtains (skip) "v = PNone \<or> key = ''drop''"
    | (formula) "v \<noteq> PNone" "key = ''formula''"
    | (descr) "v \<noteq> PNone" "key = ''description''"
    | (equal) "v \<noteq> PNone" "key \<noteq> ''drop''" "key \<noteq> ''description''" "key \<noteq> ''formula''"
  by blast

lemma matches_Cons: "matches ((key, v) # c) r = (satisfies key v r \<and> matches c r)"
  by (simp add: matches_def)

lemma filter_matches_Cons:
  "filter (matches ((key, v) # c)) rs = filter (matches c) (filter (satisfies key v) rs)"
  by (induction rs) (auto simp: matches_Cons)

text \<open>Whenever the loop returns, it returns the rows that satisfy every constraint.\<close>

lemma look_up_items_rows:
  "look_up_items c f = Inr g \<Longrightarrow> frame_rows g = filter (matches c) (frame_rows f)"
proof (induction c arbitrary: f)
  case Nil
  then show ?case by (simp add: matches_def)
next
  case (Cons kv c)
  obtain key v where kv: "kv = (key, v)" by (cases kv)
  show ?case
  proof (cases rule: constraint_cases [of v key])
    case skip
    then have "satisfies key v = (\<lambda>r. True)" by (auto simp: satisfies_def)
    moreover have "look_up_items c f = Inr g"
      using Cons.prems skip unfolding kv by (simp only: look_up_items_skip)
    ultimately show ?thesis
      using Cons.IH by (simp add: kv filter_matches_Cons)
  next
    case formula
    then have s: "satisfies key v = (\<lambda>r. False)" by (auto simp: satisfies_def)
    have "look_up_items c NoFrame = Inr g"
      using Cons.prems formula unfolding kv by simp
    then have "frame_rows g = []" using Cons.IH by fastforce
    then show ?thesis by (simp add: kv filter_matches_Cons s)
  next
    case descr
    then obtain found where f: "str_contains v = Inr found"
      and g: "look_up_items c (getitem_bool f (\<lambda>r. found (description r))) = Inr g"
      using Cons.prems descr unfolding kv by (auto split: sum.splits)
    have "satisfies key v = (\<lambda>r. found (description r))"
      using descr f by (auto simp: satisfies_def)
    then show ?thesis
      using Cons.IH [OF g] by (simp add: kv filter_matches_Cons frame_rows_getitem_bool)
  next
    case equal
    then obtain col where c: "getitem_col key = Some col"
      and g: "look_up_items c (if frame_empty (getitem_bool f (\<lambda>r. py_eq (col r) v)) then NoFrame
                           else getitem_bool f (\<lambda>r. py_eq (col r) v)) = Inr g"
      using Cons.prems equal unfolding kv by (auto simp: Let_def split: option.splits)
    have s: "satisfies key v = (\<lambda>r. py_eq (col r) v)"
      using equal c by (auto simp: satisfies_def)
    have "frame_rows (if frame_empty (getitem_bool f (\<lambda>r. py_eq (col r) v)) then NoFrame
                           else getitem_bool f (\<lambda>r. py_eq (col r) v)) = filter (satisfies key v) (frame_rows f)"
      by (simp add: s frame_empty_def frame_rows_getitem_bool)
    then show ?thesis
      using Cons.IH [OF g] by (simp add: kv filter_matches_Cons)
  qed
qed

lemma look_up_rows:
  "look_up df c years = Inr g \<Longrightarrow>
   frame_rows g = filter (\<lambda>r. year r \<in> set years \<and> matches c r) df"
  using look_up_items_rows [of c "DataFrame (filter (\<lambda>r. year r \<in> set years) df)" g]
  by (simp add: look_up_def)

lemma look_up_items_step:
  "look_up_items (kv # c) f = Inr g \<Longrightarrow>
   \<exists>f'. look_up_items c f' = Inr g \<and> (f = NoFrame \<longrightarrow> f' = NoFrame)"
proof -
  assume a: "look_up_items (kv # c) f = Inr g"
  obtain key v where kv: "kv = (key, v)" by (cases kv)
  show ?thesis
  proof (cases rule: constraint_cases [of v key])
    case skip
    then show ?thesis using a unfolding kv by (auto simp only: look_up_items_skip)
  next
    case formula
    then show ?thesis using a unfolding kv by auto
  next
    case descr
    then show ?thesis using a unfolding kv
      by (auto simp: getitem_bool_def split: sum.splits)
  next
    case equal
    then show ?thesis using a unfolding kv
      by (auto simp: Let_def getitem_bool_def split: option.splits if_splits)
  qed
qed

lemma look_up_items_NoFrame: "look_up_items c NoFrame = Inr g \<Longrightarrow> g = NoFrame"
proof (induction c)
  case Nil
  then show ?case by simp
next
  case (Cons kv c)
  then show ?case using look_up_items_step [of kv c NoFrame g] by auto
qed

lemma look_up_items_formula_mem:
  "(''formula'', v) \<in> set c \<Longrightarrow> v \<noteq> PNone \<Longrightarrow> look_up_items c f = Inr g \<Longrightarrow> g = NoFrame"
proof (induction c arbitrary: f)
  case Nil
  then show ?case by simp
next
  case (Cons kv c)
  show ?case
  proof (cases "kv = (''formula'', v)")
    case True
    then have "look_up_items c NoFrame = Inr g"
      using Cons.prems by simp
    then show ?thesis by (rule look_up_items_NoFrame)
  next
    case False
    then have m: "(''formula'', v) \<in> set c" using Cons.prems by simp
    obtain f' where "look_up_items c f' = Inr g"
      using look_up_items_step [OF Cons.prems(3)] by blast
    then show ?thesis using Cons.IH [OF m Cons.prems(2)] by blast
  qed
qed

lemma look_up_items_applicable:
  "list_all (\<lambda>(key, v). applicable key v) c \<Longrightarrow> \<exists>g. look_up_items c f = Inr g"
proof (induction c arbitrary: f)
  case Nil
  then show ?case by simp
next
  case (Cons kv c)
  obtain key v where kv: "kv = (key, v)" by (cases kv)
  have a: "applicable key v" and r: "list_all (\<lambda>(key, v). applicable key v) c"
    using Cons.prems by (simp_all add: kv)
  show ?case
  proof (cases rule: constraint_cases [of v key])
    case skip
    then show ?thesis using Cons.IH [OF r] unfolding kv by (simp only: look_up_items_skip)
  next
    case formula
    then show ?thesis using Cons.IH [OF r] unfolding kv by simp
  next
    case descr
    then obtain found where "str_contains v = Inr found"
      using a by (cases "str_contains v") (auto simp: applicable_def)
    then show ?thesis using descr Cons.IH [OF r] unfolding kv by simp
  next
    case equal
    then obtain col where "getitem_col key = Some col"
      using a by (auto simp: applicable_def)
    then show ?thesis using equal Cons.IH [OF r] unfolding kv by (simp add: Let_def)
  qed
qed

lemma look_up_items_not_applicable:
  "\<not> list_all (\<lambda>(key, v). applicable key v) c \<Longrightarrow> isl (look_up_items c f)"
proof (induction c arbitrary: f)
  case Nil
  then show ?case by simp
next
  case (Cons kv c)
  obtain key v where kv: "kv = (key, v)" by (cases kv)
  show ?case
  proof (cases "applicable key v")
    case False
    then show ?thesis unfolding kv
      by (auto simp: applicable_def Let_def split: if_splits sum.splits)
  next
    case True
    then have r: "\<not> list_all (\<lambda>(key, v). applicable key v) c"
      using Cons.prems by (simp add: kv)
    show ?thesis
    proof (cases rule: constraint_cases [of v key])
      case skip
      then show ?thesis using Cons.IH [OF r] unfolding kv by (simp only: look_up_items_skip)
    next
      case formula
      then show ?thesis using Cons.IH [OF r] unfolding kv by simp
    next
      case descr
      then show ?thesis using Cons.IH [OF r] unfolding kv by (simp split: sum.splits)
    next
      case equal
      then show ?thesis using Cons.IH [OF r] unfolding kv by (simp add: Let_def split: option.splits)
    qed
  qed
qed

lemma look_up_items_append:
  "look_up_items (pre @ post) f =
     (case look_up_items pre f of Inl e \<Rightarrow> Inl e | Inr f' \<Rightarrow> look_up_items post f')"
proof (induction pre arbitrary: f)
  case Nil
  then show ?case by simp
next
  case (Cons kv pre)
  obtain key v where kv: "kv = (key, v)" by (cases kv)
  show ?case
  proof (cases rule: constraint_cases [of v key])
    case skip
    then show ?thesis using Cons.IH unfolding kv append_Cons by (simp only: look_up_items_skip)
  next
    case formula
    then show ?thesis using Cons.IH unfolding kv by simp
  next
    case descr
    then show ?thesis using Cons.IH unfolding kv by (simp split: sum.splits)
  next
    case equal
    then show ?thesis using Cons.IH unfolding kv by (simp add: Let_def split: option.splits)
  qed
qed

section \<open>Properties of the batch filter\<close>

lemma frame_rows_concat_rows: "frame_rows (concat_rows a b) = frame_rows a @ frame_rows b"
  by (cases a; cases b) simp_all

lemma set_keep_first: "set (keep_first rs) = set rs"
  by (induction rs rule: keep_first.induct) auto

lemma frame_rows_drop_duplicates: "frame_rows (drop_duplicates f) = keep_first (frame_rows f)"
  by (cases f) (simp_all add: drop_duplicates_def)

lemma set_default_years: "set default_years = {1949..2013}"
  by (simp only: default_years_def set_upto)

lemma look_many_loop_rows:
  "look_many_loop df es out = Inr res \<Longrightarrow>
   set (frame_rows res) =
     set (frame_rows out) \<union> {r \<in> set df. year r \<in> set default_years \<and> (\<exists>c \<in> set es. matches c r)}"
proof (induction es arbitrary: out)
  case Nil
  then show ?case by simp
next
  case (Cons c es)
  then obtain g where g: "look_up df c default_years = Inr g"
    and l: "look_many_loop df es (concat_rows out g) = Inr res"
    by (auto split: sum.splits)
  have "set (frame_rows g) = {r \<in> set df. year r \<in> set default_years \<and> matches c r}"
    using look_up_rows [OF g] by auto
  then show ?case
    using Cons.IH [OF l] by (auto simp: frame_rows_concat_rows)
qed

text \<open>
  Claim C10. \<^verbatim>\<open>look_many\<close> takes no year range: every lookup it makes runs over
  \<^verbatim>\<open>range(1949, 2014)\<close>, the default of \<^verbatim>\<open>look_up\<close>. Whenever it returns, its rows are
  the rows of the table dated 1949 to 2013 that satisfy one of the constraint sets, so a
  row dated outside 1949-2013 never appears in the result.
\<close>

theorem look_many_keeps_to_default_years:
  assumes "look_many df es = Inr res"
  shows "set (frame_rows res) =
           {r \<in> set df. 1949 \<le> year r \<and> year r \<le> 2013 \<and> (\<exists>c \<in> set es. matches c r)}
         \<and> (\<forall>r \<in> set (frame_rows res). 1949 \<le> year r \<and> year r \<le> 2013)"
proof -
  obtain out where l: "look_many_loop df es NoFrame = Inr out" and r: "res = drop_duplicates out"
    using assms by (auto simp: look_many_def split: sum.splits)
  have "set (frame_rows res) = set (frame_rows out)"
    by (simp add: r frame_rows_drop_duplicates set_keep_first)
  also have "\<dots> = {r \<in> set df. year r \<in> {1949..2013} \<and> (\<exists>c \<in> set es. matches c r)}"
    using look_many_loop_rows [OF l] by (simp add: set_default_years)
  finally have e: "set (frame_rows res) = {r \<in> set df. year r \<in> {1949..2013} \<and> (\<exists>c \<in> set es. matches c r)}" .
  have 1: "set (frame_rows res) =
           {r \<in> set df. 1949 \<le> year r \<and> year r \<le> 2013 \<and> (\<exists>c \<in> set es. matches c r)}"
    unfolding e by (rule Collect_cong) simp
  have 2: "\<forall>r \<in> set (frame_rows res). 1949 \<le> year r \<and> year r \<le> 2013"
    unfolding 1 by simp
  show ?thesis using 1 2 by (rule conjI)
qed

theorem look_many_keeps_to_default_years_witness:
  "look_many [row_of ''D41'' 1999 10, row_of ''D41'' 2020 12] [[(''code'', PStr ''D41'')]]
     = Inr (DataFrame [row_of ''D41'' 1999 10])
   \<and> row_of ''D41'' 2020 12 \<notin> set (frame_rows (DataFrame [row_of ''D41'' 1999 10]))"
proof -
  have e: "look_many [row_of ''D41'' 1999 10, row_of ''D41'' 2020 12] [[(''code'', PStr ''D41'')]]
     = Inr (DataFrame [row_of ''D41'' 1999 10])"
    by (simp add: look_many_def look_up_def set_default_years row_of_def getitem_col_def
        getitem_bool_def frame_empty_def drop_duplicates_def Let_def)
  show ?thesis
    using look_many_keeps_to_default_years [OF e] e by (simp add: row_of_def)
qed

section \<open>The Row Filter, whatever \<^verbatim>\<open>str.contains\<close> does\<close>

text \<open>
  The loop with \<^verbatim>\<open>str.contains\<close> as a parameter is \<open>look_up_items\<close> when the parameter
  is \<open>str_contains\<close>; and what has been proved of \<open>look_up_items\<close> without looking into
  \<open>str_contains\<close> holds of it for every parameter.
\<close>

lemma look_up_items_with_model: "look_up_items_with str_contains c f = look_up_items c f"
  by (induction c f rule: look_up_items.induct) (simp_all add: Let_def split: option.splits sum.splits)

lemma look_up_with_model: "look_up_with str_contains df c years = look_up df c years"
  by (simp add: look_up_with_def look_up_def look_up_items_with_model)

lemma applicable_with_model: "applicable_with str_contains key v = applicable key v"
  by (simp add: applicable_with_def applicable_def)

lemma look_up_items_with_skip:
  "v = PNone \<or> key = ''drop'' \<Longrightarrow> look_up_items_with contains ((key, v) # c) f = look_up_items_with contains c f"
  by auto

lemma look_up_items_with_step:
  "look_up_items_with contains (kv # c) f = Inr g \<Longrightarrow>
   \<exists>f'. look_up_items_with contains c f' = Inr g \<and> (f = NoFrame \<longrightarrow> f' = NoFrame)"
proof -
  assume a: "look_up_items_with contains (kv # c) f = Inr g"
  obtain key v where kv: "kv = (key, v)" by (cases kv)
  show ?thesis
  proof (cases rule: constraint_cases [of v key])
    case skip
    then show ?thesis using a unfolding kv by (auto simp only: look_up_items_with_skip)
  next
    case formula
    then show ?thesis using a unfolding kv by auto
  next
    case descr
    then show ?thesis using a unfolding kv
      by (auto simp: getitem_bool_def split: sum.splits)
  next
    case equal
    then show ?thesis using a unfolding kv
      by (auto simp: Let_def getitem_bool_def split: option.splits if_splits)
  qed
qed

lemma look_up_items_with_NoFrame: "look_up_items_with contains c NoFrame = Inr g \<Longrightarrow> g = NoFrame"
proof (induction c)
  case Nil
  then show ?case by simp
next
  case (Cons kv c)
  then show ?case using look_up_items_with_step [of contains kv c NoFrame g] by auto
qed

lemma look_up_items_with_formula_mem:
  "(''formula'', v) \<in> set c \<Longrightarrow> v \<noteq> PNone \<Longrightarrow> look_up_items_with contains c f = Inr g \<Longrightarrow> g = NoFrame"
proof (induction c arbitrary: f)
  case Nil
  then show ?case by simp
next
  case (Cons kv c)
  show ?case
  proof (cases "kv = (''formula'', v)")
    case True
    then have "look_up_items_with contains c NoFrame = Inr g"
      using Cons.prems by simp
    then show ?thesis by (rule look_up_items_with_NoFrame)
  next
    case False
    then have m: "(''formula'', v) \<in> set c" using Cons.prems by simp
    obtain f' where "look_up_items_with contains c f' = Inr g"
      using look_up_items_with_step [OF Cons.prems(3)] by blast
    then show ?thesis using Cons.IH [OF m Cons.prems(2)] by blast
  qed
qed

lemma look_up_items_with_applicable:
  "list_all (\<lambda>(key, v). applicable_with contains key v) c \<Longrightarrow> \<exists>g. look_up_items_with contains c f = Inr g"
proof (induction c arbitrary: f)
  case Nil
  then show ?case by simp
next
  case (Cons kv c)
  obtain key v where kv: "kv = (key, v)" by (cases kv)
  have a: "applicable_with contains key v" and r: "list_all (\<lambda>(key, v). applicable_with contains key v) c"
    using Cons.prems by (simp_all add: kv)
  show ?case
  proof (cases rule: constraint_cases [of v key])
    case skip
    then show ?thesis using Cons.IH [OF r] unfolding kv by (simp only: look_up_items_with_skip)
  next
    case formula
    then show ?thesis using Cons.IH [OF r] unfolding kv by simp
  next
    case descr
    then obtain found where "contains v = Inr found"
      using a by (cases "contains v") (auto simp: applicable_with_def)
    then show ?thesis using descr Cons.IH [OF r] unfolding kv by simp
  next
    case equal
    then obtain col where "getitem_col key = Some col"
      using a by (auto simp: applicable_with_def)
    then show ?thesis using equal Cons.IH [OF r] unfolding kv by (simp add: Let_def)
  qed
qed

lemma look_up_items_with_not_applicable:
  "\<not> list_all (\<lambda>(key, v). applicable_with contains key v) c \<Longrightarrow> isl (look_up_items_with contains c f)"
proof (induction c arbitrary: f)
  case Nil
  then show ?case by simp
next
  case (Cons kv c)
  obtain key v where kv: "kv = (key, v)" by (cases kv)
  show ?case
  proof (cases "applicable_with contains key v")
    case False
    then show ?thesis unfolding kv
      by (auto simp: applicable_with_def Let_def split: if_splits sum.splits)
  next
    case True
    then have r: "\<not> list_all (\<lambda>(key, v). applicable_with contains key v) c"
      using Cons.prems by (simp add: kv)
    show ?thesis
    proof (cases rule: constraint_cases [of v key])
      case skip
      then show ?thesis using Cons.IH [OF r] unfolding kv by (simp only: look_up_items_with_skip)
    next
      case formula
      then show ?thesis using Cons.IH [OF r] unfolding kv by simp
    next
      case descr
      then show ?thesis using Cons.IH [OF r] unfolding kv by (simp split: sum.splits)
    next
      case equal
      then show ?thesis using Cons.IH [OF r] unfolding kv by (simp add: Let_def split: option.splits)
    qed
  qed
qed

lemma look_up_items_with_append:
  "look_up_items_with contains (pre @ post) f =
     (case look_up_items_with contains pre f of Inl e \<Rightarrow> Inl e | Inr f' \<Rightarrow> look_up_items_with contains post f')"
proof (induction pre arbitrary: f)
  case Nil
  then show ?case by simp
next
  case (Cons kv pre)
  obtain key v where kv: "kv = (key, v)" by (cases kv)
  show ?case
  proof (cases rule: constraint_cases [of v key])
    case skip
    then show ?thesis using Cons.IH unfolding kv append_Cons by (simp only: look_up_items_with_skip)
  next
    case formula
    then show ?thesis using Cons.IH unfolding kv by simp
  next
    case descr
    then show ?thesis using Cons.IH unfolding kv by (simp split: sum.splits)
  next
    case equal
    then show ?thesis using Cons.IH unfolding kv by (simp add: Let_def split: option.splits)
  qed
qed

section \<open>Claims about the Row Filter\<close>

text \<open>
  Claim C5, as amended. \<open>contains\<close> stands for \<^verbatim>\<open>str.contains\<close>, whatever it does. A
  constraint set that holds \<^verbatim>\<open>formula\<close> with a value other than \<^verbatim>\<open>None\<close> gives the
  explicitly empty result, whatever its other fields are, provided every constraint in
  it can be applied: a field other than \<^verbatim>\<open>drop\<close>, \<^verbatim>\<open>description\<close> and \<^verbatim>\<open>formula\<close> names a
  column, and \<^verbatim>\<open>str.contains\<close> accepts the description. Otherwise \<^verbatim>\<open>look_up\<close> raises (an
  unknown field is a KeyError). A \<^verbatim>\<open>formula\<close> that is \<^verbatim>\<open>None\<close> is skipped like every null
  value and forces nothing: the counterexample returns the row of code D41.
\<close>

theorem formula_forces_empty:
  assumes "(''formula'', v) \<in> set c" and "v \<noteq> PNone"
  shows "if list_all (\<lambda>(key, w). applicable_with contains key w) c
         then look_up_with contains df c years = Inr NoFrame
         else isl (look_up_with contains df c years)"
proof (cases "list_all (\<lambda>(key, w). applicable_with contains key w) c")
  case True
  then obtain g where g: "look_up_with contains df c years = Inr g"
    using look_up_items_with_applicable unfolding look_up_with_def by blast
  then have "g = NoFrame"
    using look_up_items_with_formula_mem [OF assms] unfolding look_up_with_def by blast
  then show ?thesis using True g by simp
next
  case False
  then show ?thesis using look_up_items_with_not_applicable unfolding look_up_with_def by simp
qed

theorem formula_forces_empty_witness:
  "look_up_with str_contains [row_of ''D41'' 1999 10]
     [(''code'', PStr ''D41''), (''formula'', PStr ''X + Y'')] [1999]
     = Inr NoFrame"
  using formula_forces_empty [of "PStr ''X + Y''"
      "[(''code'', PStr ''D41''), (''formula'', PStr ''X + Y'')]"
      str_contains "[row_of ''D41'' 1999 10]" "[1999]"]
  by (simp add: applicable_with_def getitem_col_def)

theorem null_formula_counterexample:
  "look_up [row_of ''D41'' 1999 10] [(''code'', PStr ''D41''), (''formula'', PNone)] [1999]
     = Inr (DataFrame [row_of ''D41'' 1999 10])
   \<and> \<not> frame_empty (DataFrame [row_of ''D41'' 1999 10])"
  by (simp add: look_up_def row_of_def getitem_col_def getitem_bool_def frame_empty_def Let_def)


text \<open>
  Claim C2, as amended. \<open>contains\<close> stands for \<^verbatim>\<open>str.contains\<close>, whatever it does. When a
  non-null equality constraint leaves no row, the loop puts \<^verbatim>\<open>pandas.DataFrame()\<close> in
  place of the result and goes on: the constraints after it are still run, on the empty
  frame. If all of them can be applied the operation returns the explicitly empty frame;
  if one cannot, the operation raises. The counterexample has an unknown field after the
  emptying constraint, in the order in which the interpreter iterates over the dict
  \<^verbatim>\<open>{'code': 'D99', 'foo': 'red'}\<close>: \<^verbatim>\<open>look_up\<close> raises KeyError where the Row Filter of
  the specification returns the empty result.
\<close>

theorem empty_subset_is_reset_not_skipped:
  assumes "look_up_items_with contains pre (DataFrame (filter (\<lambda>r. year r \<in> set years) df)) = Inr f"
    and "v \<noteq> PNone" and "key \<noteq> ''drop''" and "key \<noteq> ''description''" and "key \<noteq> ''formula''"
    and "getitem_col key = Some col"
    and "frame_empty (getitem_bool f (\<lambda>r. py_eq (col r) v))"
  shows "look_up_with contains df (pre @ (key, v) # post) years = look_up_items_with contains post NoFrame
         \<and> (if list_all (\<lambda>(k, w). applicable_with contains k w) post
            then look_up_items_with contains post NoFrame = Inr NoFrame
            else isl (look_up_items_with contains post NoFrame))"
proof -
  have "look_up_items_with contains ((key, v) # post) f = look_up_items_with contains post NoFrame"
    using assms(2-7) by (simp add: Let_def)
  then have 1: "look_up_with contains df (pre @ (key, v) # post) years
                  = look_up_items_with contains post NoFrame"
    using assms(1) by (simp add: look_up_with_def look_up_items_with_append)
  have 2: "look_up_items_with contains post NoFrame = Inr NoFrame"
    if "list_all (\<lambda>(k, w). applicable_with contains k w) post"
    using look_up_items_with_applicable [OF that, of NoFrame] look_up_items_with_NoFrame by auto
  show ?thesis
    using 1 2 look_up_items_with_not_applicable [of contains post NoFrame] by simp
qed

theorem empty_subset_is_reset_not_skipped_witness:
  "look_up_with str_contains [row_of ''D41'' 1999 10]
     ([] @ (''code'', PStr ''D99'') # [(''institution'', PStr ''S1'')]) [1999]
     = Inr NoFrame"
  using empty_subset_is_reset_not_skipped [of str_contains "[]" "[1999]" "[row_of ''D41'' 1999 10]"
      "DataFrame [row_of ''D41'' 1999 10]" "PStr ''D99''" "''code''" "\<lambda>r. PStr (code r)"
      "[(''institution'', PStr ''S1'')]"]
  by (simp add: applicable_with_def getitem_col_def row_of_def getitem_bool_def frame_empty_def)

theorem short_circuit_counterexample:
  "look_up [row_of ''D41'' 1999 10] [(''code'', PStr ''D99''), (''foo'', PStr ''red'')] [1999]
     = Inl (KeyError ''foo'')
   \<and> look_up_short_circuit [row_of ''D41'' 1999 10] [(''code'', PStr ''D99''), (''foo'', PStr ''red'')] [1999]
     = Inr NoFrame"
  by (simp add: look_up_def look_up_short_circuit_def row_of_def getitem_col_def getitem_bool_def
      frame_empty_def Let_def)

lemma starts_with_iff: "starts_with pat s \<longleftrightarrow> (\<exists>post. s = pat @ post)"
  by (induction pat s rule: starts_with.induct) auto

lemma py_in_iff: "py_in pat s \<longleftrightarrow> (\<exists>pre post. s = pre @ pat @ post)"
proof (induction s)
  case Nil
  show ?case by (cases pat) auto
next
  case (Cons c cs)
  show ?case
  proof
    assume "py_in pat (c # cs)"
    then consider "starts_with pat (c # cs)" | "py_in pat cs" by auto
    then show "\<exists>pre post. c # cs = pre @ pat @ post"
    proof cases
      case 1
      then obtain post where "c # cs = pat @ post" by (auto simp: starts_with_iff)
      then have "c # cs = [] @ pat @ post" by simp
      then show ?thesis by blast
    next
      case 2
      then obtain pre post where "cs = pre @ pat @ post" using Cons.IH by blast
      then have "c # cs = (c # pre) @ pat @ post" by simp
      then show ?thesis by blast
    qed
  next
    assume "\<exists>pre post. c # cs = pre @ pat @ post"
    then obtain pre post where e: "c # cs = pre @ pat @ post" by blast
    show "py_in pat (c # cs)"
    proof (cases pre)
      case Nil
      then have "starts_with pat (c # cs)" using e by (auto simp: starts_with_iff)
      then show ?thesis by simp
    next
      case (Cons a pre')
      then have "cs = pre' @ pat @ post" using e by simp
      then have "py_in pat cs" using Cons.IH by blast
      then show ?thesis by simp
    qed
  qed
qed

lemma re_match_here_plain:
  "CHR ''.'' \<notin> set pat \<Longrightarrow> re_match_here pat s = starts_with pat s"
  by (induction pat s rule: re_match_here.induct) auto

lemma re_search_plain: "CHR ''.'' \<notin> set pat \<Longrightarrow> re_search pat s = py_in pat s"
  by (induction s) (simp_all add: re_match_here_plain)

text \<open>
  Claim C4 at the input where the code departs from it. The table has one row, described
  as "PIB en volume"; the constraint set asks for the description \<^verbatim>\<open>P.B\<close>. That text is
  not contained in the description, so the row does not match the constraint as the claim
  reads it; \<^verbatim>\<open>look_up\<close> returns the row all the same, because \<^verbatim>\<open>str.contains\<close> takes
  its argument for a regular expression, in which the dot stands for any character.
\<close>
theorem description_is_searched_as_a_pattern:
  "look_up [row_of ''B1g'' 1999 10] [(''description'', PStr ''P.B'')] [1999]
     = Inr (DataFrame [row_of ''B1g'' 1999 10])
   \<and> description (row_of ''B1g'' 1999 10) = ''PIB en volume''
   \<and> \<not> py_in ''P.B'' ''PIB en volume''
   \<and> \<not> substring_satisfies ''description'' (PStr ''P.B'') (row_of ''B1g'' 1999 10)"
  by (simp add: look_up_def row_of_def str_contains_def re_special_def getitem_bool_def
      substring_satisfies_def)

section \<open>Properties of the Variable Resolver\<close>

lemma the_registry_Some [simp]: "the_registry name (Some reg) = reg"
  by (simp add: the_registry_def)

lemma get_or_construct_value_missing:
  "map_of reg name = None \<Longrightarrow>
   get_or_construct_value (Suc depth) df name (Some reg) years = Inl (KeyError name)"
  by (simp add: first_step_def)

lemma get_or_construct_value_direct:
  "map_of reg name = Some variable \<Longrightarrow> look_up df variable years = Inr entry_df \<Longrightarrow>
   \<not> frame_empty entry_df \<Longrightarrow>
   get_or_construct_value (Suc depth) df name (Some reg) years = Inr (direct name entry_df, name)"
  by (simp add: first_step_def)

lemma get_or_construct_value_absent:
  "map_of reg name = Some variable \<Longrightarrow> look_up df variable years = Inr entry_df \<Longrightarrow>
   frame_empty entry_df \<Longrightarrow> \<not> truthy (dict_get variable ''formula'') \<Longrightarrow>
   get_or_construct_value (Suc depth) df name (Some reg) years = Inr (NoSerie, [])"
  by (simp add: first_step_def)

lemma get_or_construct_value_look_up_error:
  "map_of reg name = Some variable \<Longrightarrow> look_up df variable years = Inl e \<Longrightarrow>
   get_or_construct_value (Suc depth) df name (Some reg) years = Inl e"
  by (simp add: first_step_def)

text \<open>
  Claim C3, as amended. The source has no check for rows that disagree on a year. When the
  filter of a variable keeps two rows of the same year with different values, the
  resolver raises nothing: it returns the series of all the rows the filter keeps, in
  table order, the year standing twice in its index, and the name of the variable as its
  formula.
\<close>
theorem ambiguous_rows_are_returned:
  assumes "map_of index_by_variable variable_name = Some variable"
    and "look_up df variable years = Inr entry_df"
    and "r1 \<in> set (frame_rows entry_df)" and "r2 \<in> set (frame_rows entry_df)"
    and "year r1 = year r2" and "val r1 \<noteq> val r2"
  shows "get_or_construct_value (Suc depth) df variable_name (Some index_by_variable) years =
           Inr (Serie variable_name
                  (map (\<lambda>r. (year r, val r))
                     (filter (\<lambda>r. year r \<in> set years \<and> matches variable r) df)),
                variable_name)"
proof -
  have "\<not> frame_empty entry_df"
    using assms(3) by (auto simp: frame_empty_def)
  then show ?thesis
    using get_or_construct_value_direct [OF assms(1,2)] look_up_rows [OF assms(2)]
    by (simp add: direct_def)
qed

lemma look_up_code_example:
  "look_up [row_of ''D41'' 1999 10, row_of ''D41'' 1999 20] [(''code'', PStr ''D41'')] [1999]
     = Inr (DataFrame [row_of ''D41'' 1999 10, row_of ''D41'' 1999 20])"
  by (simp add: look_up_def row_of_def getitem_col_def getitem_bool_def frame_empty_def)

theorem ambiguous_rows_are_returned_witness:
  "get_or_construct_value (Suc 0) [row_of ''D41'' 1999 10, row_of ''D41'' 1999 20] ''X''
     (Some [(''X'', [(''code'', PStr ''D41'')])]) [1999]
   = Inr (Serie ''X''
           (map (\<lambda>r. (year r, val r))
              (filter (\<lambda>r. year r \<in> set [1999] \<and> matches [(''code'', PStr ''D41'')] r)
                 [row_of ''D41'' 1999 10, row_of ''D41'' 1999 20])),
          ''X'')"
  using ambiguous_rows_are_returned [of "[(''X'', [(''code'', PStr ''D41'')])]" "''X''"
      "[(''code'', PStr ''D41'')]" "[row_of ''D41'' 1999 10, row_of ''D41'' 1999 20]" "[1999]"
      "DataFrame [row_of ''D41'' 1999 10, row_of ''D41'' 1999 20]"
      "row_of ''D41'' 1999 10" "row_of ''D41'' 1999 20" 0]
    look_up_code_example
  by (simp add: row_of_def)

theorem ambiguous_match_counterexample:
  "get_or_construct_value (Suc 0) [row_of ''D41'' 1999 10, row_of ''D41'' 1999 20] ''X''
     (Some [(''X'', [(''code'', PStr ''D41'')])]) [1999]
   = Inr (Serie ''X'' [(1999, 10), (1999, 20)], ''X'')"
  using get_or_construct_value_direct [of "[(''X'', [(''code'', PStr ''D41'')])]" "''X''"
      "[(''code'', PStr ''D41'')]" "[row_of ''D41'' 1999 10, row_of ''D41'' 1999 20]" "[1999]"
      "DataFrame [row_of ''D41'' 1999 10, row_of ''D41'' 1999 20]" 0]
    look_up_code_example
  by (simp add: frame_empty_def direct_def row_of_def)

text \<open>
  Claim C6, as amended. The source tests \<^verbatim>\<open>index_by_variable is None\<close>. Called without a
  registry, the resolver works as if the registry were \<^verbatim>\<open>{variable_name: {'code':
  variable_name}}\<close>; if the table then has no row of that code in the requested years, it
  returns the empty series and the empty formula and raises nothing. Called with a
  registry, empty or not, in which the variable is not a key, it raises KeyError: the
  counterexample does so on the empty registry, for a code the table holds.
\<close>
theorem absent_registry_is_lookup_by_code:
  "get_or_construct_value depth df variable_name None years =
     get_or_construct_value depth df variable_name
       (Some [(variable_name, [(''code'', PStr variable_name)])]) years
   \<and> ((\<forall>r \<in> set df. year r \<in> set years \<longrightarrow> code r \<noteq> variable_name) \<longrightarrow>
        get_or_construct_value (Suc depth) df variable_name None years = Inr (NoSerie, []))
   \<and> (map_of index_by_variable variable_name = None \<longrightarrow>
        get_or_construct_value (Suc depth) df variable_name (Some index_by_variable) years
          = Inl (KeyError variable_name))"
proof (intro conjI impI)
  show "get_or_construct_value depth df variable_name None years =
     get_or_construct_value depth df variable_name
       (Some [(variable_name, [(''code'', PStr variable_name)])]) years"
    by (cases depth) (simp_all add: the_registry_def split: first_step.splits)
next
  assume a: "\<forall>r \<in> set df. year r \<in> set years \<longrightarrow> code r \<noteq> variable_name"
  have "filter (\<lambda>r. py_eq (PStr (code r)) (PStr variable_name)) (filter (\<lambda>r. year r \<in> set years) df) = []"
    using a by (auto simp: filter_empty_conv)
  then have "look_up df [(''code'', PStr variable_name)] years = Inr NoFrame"
    by (simp add: look_up_def getitem_col_def getitem_bool_def frame_empty_def)
  then show "get_or_construct_value (Suc depth) df variable_name None years = Inr (NoSerie, [])"
    by (simp add: first_step_def the_registry_def frame_empty_def dict_get_def)
next
  assume "map_of index_by_variable variable_name = None"
  then show "get_or_construct_value (Suc depth) df variable_name (Some index_by_variable) years
          = Inl (KeyError variable_name)"
    by (rule get_or_construct_value_missing)
qed

theorem absent_registry_is_lookup_by_code_witness:
  "get_or_construct_value (Suc 0) [row_of ''D41'' 1999 10] ''D42'' None [1999] = Inr (NoSerie, [])
   \<and> get_or_construct_value (Suc 0) [row_of ''D41'' 1999 10] ''D42'' (Some [(''X'', [(''code'', PStr ''D41'')])]) [1999]
       = Inl (KeyError ''D42'')"
  using absent_registry_is_lookup_by_code [of 0 "[row_of ''D41'' 1999 10]" "''D42''" "[1999]"
      "[(''X'', [(''code'', PStr ''D41'')])]"]
  by (simp add: row_of_def)

theorem empty_registry_counterexample:
  "get_or_construct_value (Suc 0) [row_of ''D41'' 1999 10] ''D41'' (Some []) [1999]
     = Inl (KeyError ''D41'')
   \<and> get_or_construct_value (Suc 0) [row_of ''D41'' 1999 10] ''D41'' None [1999]
     = Inr (Serie ''D41'' [(1999, 10)], ''D41'')"
  by (simp add: first_step_def the_registry_def look_up_def getitem_col_def getitem_bool_def
      frame_empty_def direct_def row_of_def)

section \<open>The derived branch\<close>

lemma get_or_construct_value_derived:
  "first_step df name reg years = Derived f vars \<Longrightarrow>
   get_or_construct_value (Suc depth) df name (Some reg) years =
     (case components_loop depth df reg years f vars (None, [], None) of
        Inl e \<Rightarrow> Inl e
      | Inr st \<Rightarrow> construct name f vars st)"
  by simp

declare get_or_construct_value.simps(2) [simp del]

lemma components_loop_last:
  "components_loop depth df reg years f vars st = Inr (ff, dico, idx) \<Longrightarrow> vars \<noteq> [] \<Longrightarrow>
   \<exists>s vf. get_or_construct_value depth df (last vars) (Some reg) years = Inr (s, vf)
          \<and> ff = Some (str_replace f (last vars) (''('' @ vf @ '')''))
          \<and> idx = Some (serie_index s)"
proof (induction vars arbitrary: st)
  case Nil
  then show ?case by simp
next
  case (Cons c vars)
  obtain s vf where r: "get_or_construct_value depth df c (Some reg) years = Inr (s, vf)"
    and l: "components_loop depth df reg years f vars
              (Some (str_replace f c (''('' @ vf @ '')'')), (c, squeeze s) # fst (snd st),
               Some (serie_index s)) = Inr (ff, dico, idx)"
    using Cons.prems(1) by (auto split: sum.splits)
  show ?case
  proof (cases "vars = []")
    case True
    then show ?thesis using r l by simp
  next
    case False
    then show ?thesis using Cons.IH [OF l False] by simp
  qed
qed

lemma construct_formula:
  "construct name f vars (ff, dico, idx) = Inr (s, g) \<Longrightarrow> ff = Some g"
  by (auto simp: construct_def Let_def split: sum.splits option.splits)

text \<open>
  Whenever the derived branch returns, the formula it returns is the registry formula in
  which the last of the referenced variables, and no other, has been replaced.
\<close>

lemma derived_formula_replaces_last_only:
  assumes "first_step df name reg years = Derived f vars"
    and "get_or_construct_value (Suc depth) df name (Some reg) years = Inr (s, g)"
  shows "vars \<noteq> [] \<and>
         (\<exists>s' vf. get_or_construct_value depth df (last vars) (Some reg) years = Inr (s', vf)
                 \<and> g = str_replace f (last vars) (''('' @ vf @ '')''))"
proof -
  obtain ff dico idx where l: "components_loop depth df reg years f vars (None, [], None) = Inr (ff, dico, idx)"
    and c: "construct name f vars (ff, dico, idx) = Inr (s, g)"
    using assms(2) unfolding get_or_construct_value_derived [OF assms(1)]
    by (auto split: sum.splits)
  have ff: "ff = Some g" using c by (rule construct_formula)
  have "vars \<noteq> []"
  proof
    assume "vars = []"
    then have "ff = None" using l by simp
    then show False using ff by simp
  qed
  then show ?thesis using components_loop_last [OF l] ff by auto
qed

text \<open>
  Claim C1 at its own example, and at the same example over two years. The registry is
  \<^verbatim>\<open>{X: {code: 'D41'}, Y: {code: 'D42'}, Z: {formula: 'X + Y'}}\<close>. Over \<^verbatim>\<open>[1999]\<close>, with
  the rows (D41, 1999, 10) and (D42, 1999, 5), each component has a single row, so
  \<^verbatim>\<open>squeeze()\<close> makes a numpy scalar of it and \<^verbatim>\<open>print len(dico_value[component])\<close> raises
  TypeError: nothing is returned. With both codes present in 1999 and in 2000 the
  resolver returns the sums, and the formula \<^verbatim>\<open>X + (Y)\<close>: every pass of the first loop
  replaces in the registry formula, not in the result of the pass before, so that the last
  component alone is substituted.
\<close>
theorem sum_formula_keeps_first_name:
  "get_or_construct_value (Suc (Suc 0)) [row_of ''D41'' 1999 10, row_of ''D42'' 1999 5] ''Z''
     (Some example_registry) [1999] = Inl TypeError
   \<and> get_or_construct_value (Suc (Suc 0))
       [row_of ''D41'' 1999 10, row_of ''D42'' 1999 5, row_of ''D41'' 2000 11, row_of ''D42'' 2000 6]
       ''Z'' (Some example_registry) [1999, 2000]
     = Inr (Serie ''Z'' [(1999, 15), (2000, 17)], ''X + (Y)'')"
  by code_simp

section \<open>References to variables that the registry does not hold\<close>

lemma get_or_construct_value_with_missing:
  "map_of reg name = None \<Longrightarrow>
   get_or_construct_value_with lib (Suc depth) df name (Some reg) years = Inl (KeyError name)"
  by (simp add: first_step_with_def)

lemma get_or_construct_value_with_look_up_error:
  "map_of reg name = Some variable \<Longrightarrow> look_up_with (lib_contains lib) df variable years = Inl e \<Longrightarrow>
   get_or_construct_value_with lib (Suc depth) df name (Some reg) years = Inl e"
  by (simp add: first_step_with_def)

lemma get_or_construct_value_with_derived:
  "first_step_with lib df name reg years = Derived f vars \<Longrightarrow>
   get_or_construct_value_with lib (Suc depth) df name (Some reg) years =
     (case components_loop_with lib depth df reg years f vars (None, [], None) of
        Inl e \<Rightarrow> Inl e
      | Inr st \<Rightarrow> construct_with lib name f vars st)"
  by simp

text \<open>With the models of the three calls for the parameter, these are the functions above.\<close>

lemma model_library_calls [simp]:
  "lib_contains model_library = str_contains"
  "lib_variables model_library = parse_formula"
  "lib_eval model_library = py_eval"
  by (simp_all add: model_library_def)

lemma first_step_with_model:
  "first_step_with model_library df name reg years = first_step df name reg years"
  unfolding first_step_with_def first_step_def model_library_calls look_up_with_model
  by (rule refl)

lemma construct_with_model: "construct_with model_library name f vars st = construct name f vars st"
  unfolding construct_with_def construct_def model_library_calls
  by (rule refl)

lemma get_or_construct_value_with_model:
  "get_or_construct_value_with model_library depth df name ibv years
     = get_or_construct_value depth df name ibv years"
  and components_loop_with_model:
  "components_loop_with model_library depth df reg years f vars st
     = components_loop depth df reg years f vars st"
proof (induction depth df name ibv years and depth df reg years f vars st
    rule: get_or_construct_value_components_loop.induct)
  case (1 df variable_name index_by_variable years)
  then show ?case by simp
next
  case (2 depth df variable_name index_by_variable years)
  show ?case
  proof (cases "first_step df variable_name (the_registry variable_name index_by_variable) years")
    case (Return r)
    then show ?thesis
      by (simp add: get_or_construct_value.simps first_step_with_model)
  next
    case (Derived formula vars)
    then show ?thesis
      using "2.IH" [OF Derived]
      by (simp add: get_or_construct_value.simps first_step_with_model construct_with_model
          split: sum.splits)
  qed
next
  case (3 depth df index_by_variable years formula st)
  then show ?case by simp
next
  case (4 depth df index_by_variable years formula component rest st)
  show ?case
  proof (cases "get_or_construct_value depth df component (Some index_by_variable) years")
    case (Inl e)
    then show ?thesis using "4.IH"(1) by simp
  next
    case (Inr p)
    obtain s vf where p: "p = (s, vf)" by (cases p)
    show ?thesis
      using "4.IH"(1) "4.IH"(2) [OF Inr p [symmetric]] Inr p by simp
  qed
qed

declare get_or_construct_value_with.simps(2) [simp del]

lemma get_or_construct_value_with_missing_isl:
  "map_of reg c = None \<Longrightarrow> isl (get_or_construct_value_with lib depth df c (Some reg) years)"
  by (cases depth) (simp_all add: get_or_construct_value_with_missing)

lemma components_loop_with_fails:
  "c \<in> set vars \<Longrightarrow> isl (get_or_construct_value_with lib depth df c (Some reg) years) \<Longrightarrow>
   isl (components_loop_with lib depth df reg years f vars st)"
proof (induction vars arbitrary: st)
  case Nil
  then show ?case by simp
next
  case (Cons a vars)
  show ?case
  proof (cases "get_or_construct_value_with lib depth df a (Some reg) years")
    case (Inl e)
    then show ?thesis by simp
  next
    case (Inr p)
    then have "a \<noteq> c" using Cons.prems(2) by auto
    then have "c \<in> set vars" using Cons.prems(1) by simp
    then show ?thesis using Cons.IH Cons.prems(2) Inr by (simp split: prod.splits)
  qed
qed

lemma components_loop_with_reaches:
  "c \<in> set vars \<Longrightarrow>
   \<forall>a \<in> set (takeWhile (\<lambda>x. x \<noteq> c) vars).
      \<not> isl (get_or_construct_value_with lib depth df a (Some reg) years) \<Longrightarrow>
   get_or_construct_value_with lib depth df c (Some reg) years = Inl e \<Longrightarrow>
   components_loop_with lib depth df reg years f vars st = Inl e"
proof (induction vars arbitrary: st)
  case Nil
  then show ?case by simp
next
  case (Cons a vars)
  show ?case
  proof (cases "a = c")
    case True
    then show ?thesis using Cons.prems(3) by simp
  next
    case False
    then have m: "c \<in> set vars" using Cons.prems(1) by simp
    have t: "\<forall>a \<in> set (takeWhile (\<lambda>x. x \<noteq> c) vars).
               \<not> isl (get_or_construct_value_with lib depth df a (Some reg) years)"
      using Cons.prems(2) False by simp
    have "\<not> isl (get_or_construct_value_with lib depth df a (Some reg) years)"
      using Cons.prems(2) False by simp
    then obtain p where "get_or_construct_value_with lib depth df a (Some reg) years = Inr p"
      by (cases "get_or_construct_value_with lib depth df a (Some reg) years") auto
    then show ?thesis using Cons.IH [OF m t Cons.prems(3)] by (simp split: prod.splits)
  qed
qed

lemma first_step_with_formula:
  assumes "map_of reg v = Some d" and "dict_get d ''formula'' = PStr f" and "f \<noteq> []"
    and "lib_variables lib (PStr f) = Inr vars"
    and "look_up_with (lib_contains lib) df d years = Inr g"
  shows "first_step_with lib df v reg years = Derived f vars"
proof -
  have "map_of d ''formula'' = Some (PStr f)"
    using assms(2) by (auto simp: dict_get_def split: option.splits)
  then have "(''formula'', PStr f) \<in> set d" by (rule map_of_SomeD)
  then have "g = NoFrame"
    using look_up_items_with_formula_mem [of "PStr f" d _ _ g] assms(5)
    by (simp add: look_up_with_def)
  then show ?thesis
    using assms by (simp add: first_step_with_def frame_empty_def formula_text_def)
qed

text \<open>
  Claim C7. \<open>lib\<close> stands for the three libraries, whatever they do. Let the formula of a
  variable be a text that is not empty, and let the parser list, among the variables of
  that formula, a name that is not a key of the registry. Then resolving the variable
  returns no result, however deep the call stack may grow. And it raises the KeyError of
  \<^verbatim>\<open>index_by_variable[variable_name]\<close>, carrying the missing name, as soon as the loop
  over the components reaches that name: that is, when the filter of the variable and
  the resolution of the components listed before the name raise nothing (the call stack
  allowing the variable and one component under it).
\<close>
theorem undeclared_reference_raises:
  assumes "map_of reg v = Some d" and "dict_get d ''formula'' = PStr f" and "f \<noteq> []"
    and "lib_variables lib (PStr f) = Inr vars" and "c \<in> set vars" and "map_of reg c = None"
  shows "(\<forall>depth r. get_or_construct_value_with lib depth df v (Some reg) years \<noteq> Inr r)
       \<and> (\<not> isl (look_up_with (lib_contains lib) df d years)
            \<and> (\<forall>a \<in> set (takeWhile (\<lambda>x. x \<noteq> c) vars).
                  \<not> isl (get_or_construct_value_with lib (Suc n) df a (Some reg) years))
          \<longrightarrow> get_or_construct_value_with lib (Suc (Suc n)) df v (Some reg) years = Inl (KeyError c))"
proof (intro conjI allI impI)
  fix depth r
  have "isl (get_or_construct_value_with lib depth df v (Some reg) years)"
  proof (cases depth)
    case 0
    then show ?thesis by simp
  next
    case (Suc k)
    show ?thesis
    proof (cases "look_up_with (lib_contains lib) df d years")
      case (Inl e)
      then show ?thesis using assms(1) Suc by (simp add: get_or_construct_value_with_look_up_error)
    next
      case (Inr g)
      have "isl (components_loop_with lib k df reg years f vars (None, [], None))"
        using components_loop_with_fails
          [OF assms(5) get_or_construct_value_with_missing_isl [OF assms(6)]] .
      then obtain e where "components_loop_with lib k df reg years f vars (None, [], None) = Inl e"
        by (cases "components_loop_with lib k df reg years f vars (None, [], None)") auto
      then show ?thesis
        using get_or_construct_value_with_derived [OF first_step_with_formula [OF assms(1-4) Inr]] Suc
        by simp
    qed
  qed
  then show "get_or_construct_value_with lib depth df v (Some reg) years \<noteq> Inr r"
    by auto
next
  assume a: "\<not> isl (look_up_with (lib_contains lib) df d years)
            \<and> (\<forall>a \<in> set (takeWhile (\<lambda>x. x \<noteq> c) vars).
                  \<not> isl (get_or_construct_value_with lib (Suc n) df a (Some reg) years))"
  then obtain g where g: "look_up_with (lib_contains lib) df d years = Inr g"
    by (cases "look_up_with (lib_contains lib) df d years") auto
  have "components_loop_with lib (Suc n) df reg years f vars (None, [], None) = Inl (KeyError c)"
    using components_loop_with_reaches
      [OF assms(5) _ get_or_construct_value_with_missing [OF assms(6)]] a
    by blast
  then show "get_or_construct_value_with lib (Suc (Suc n)) df v (Some reg) years = Inl (KeyError c)"
    using get_or_construct_value_with_derived [OF first_step_with_formula [OF assms(1-4) g]] by simp
qed


theorem undeclared_reference_raises_witness:
  "get_or_construct_value_with model_library (Suc (Suc 0)) [row_of ''D41'' 1999 10] ''Z''
       (Some dangling_registry) [1999]
     = Inl (KeyError ''W'')
   \<and> (\<forall>r. get_or_construct_value_with model_library (Suc 0) [row_of ''D41'' 1999 10] ''Z''
              (Some dangling_registry) [1999] \<noteq> Inr r)"
proof -
  have m: "map_of dangling_registry ''Z'' = Some [(''formula'', PStr ''X + W'')]"
    and f: "dict_get [(''formula'', PStr ''X + W'')] ''formula'' = PStr ''X + W''"
    and w: "map_of dangling_registry ''W'' = None"
    and n: "''X + W'' \<noteq> []"
    by (simp_all add: dangling_registry_def dict_get_def)
  have v: "lib_variables model_library (PStr ''X + W'') = Inr [''X'', ''W'']"
    by code_simp
  have x: "\<not> isl (get_or_construct_value_with model_library (Suc 0) [row_of ''D41'' 1999 10] ''X''
                    (Some dangling_registry) [1999])"
    by code_simp
  have l: "\<not> isl (look_up_with (lib_contains model_library) [row_of ''D41'' 1999 10]
                    [(''formula'', PStr ''X + W'')] [1999])"
    by code_simp
  show ?thesis
    using undeclared_reference_raises [OF m f n v _ w, of "[row_of ''D41'' 1999 10]" "[1999]" 0] x l
    by simp
qed

section \<open>Properties of the Batch Resolver\<close>

lemma concat_columns_Inr:
  "concat_columns result s = Inr result' \<Longrightarrow>
   result' = (fst result \<union> set (serie_index s), snd result @ columns_of s)"
  by (cases s) (auto simp: concat_columns_def split: if_splits)

lemma rev_formula_entry: "rev (formula_entry item r) = formula_entry item r"
  by (simp add: formula_entry_def)

lemma data_loop_collects:
  assumes "data_loop lib depth df reg years (map fst items) ((i0, t0), m0) = Inr ((idx, cols), formulas)"
    and "\<forall>item \<in> set items. map_of reg (fst item) = Some (snd item)"
  shows "\<exists>rs. map (\<lambda>item. get_or_construct_value_with lib depth df (fst item) (Some reg) years) items
                = map Inr rs
            \<and> idx = i0 \<union> \<Union> (set (map2 kept_years items rs))
            \<and> cols = t0 @ concat (map2 kept_columns items rs)
            \<and> formulas = m0 ++ map_of (rev (concat (map2 formula_entry items rs)))"
  using assms
proof (induction items arbitrary: i0 t0 m0)
  case Nil
  then show ?case by simp
next
  case (Cons item items)
  obtain v d where item: "item = (v, d)" by (cases item)
  have d: "map_of reg v = Some d" using Cons.prems(2) by (simp add: item)
  have rest: "\<forall>item \<in> set items. map_of reg (fst item) = Some (snd item)"
    using Cons.prems(2) by simp
  obtain s f where r: "get_or_construct_value_with lib depth df v (Some reg) years = Inr (s, f)"
    using Cons.prems(1) by (auto simp: item split: sum.splits)
  define m1 where "m1 = m0 ++ map_of (formula_entry item (s, f))"
  define t1 where "t1 = t0 @ kept_columns item (s, f)"
  define i1 where "i1 = i0 \<union> kept_years item (s, f)"
  have m1: "m1 = (if dict_get d ''formula'' \<noteq> PNone then m0(underscores_to_spaces v \<mapsto> f) else m0)"
    by (simp add: m1_def formula_entry_def item)
  have l: "data_loop lib depth df reg years (map fst items) ((i1, t1), m1) = Inr ((idx, cols), formulas)"
  proof (cases "truthy (dict_get d ''drop'')")
    case True
    then have "t1 = t0" and "i1 = i0"
      by (simp_all add: t1_def i1_def kept_columns_def kept_years_def item)
    then show ?thesis
      using Cons.prems(1) True by (auto simp: item r d m1 Let_def split: if_splits)
  next
    case False
    then obtain t' where c: "concat_columns (i0, t0) s = Inr t'"
      using Cons.prems(1) by (auto simp: item r d Let_def split: sum.splits)
    have "t' = (i1, t1)"
      using False concat_columns_Inr [OF c]
      by (simp add: t1_def i1_def kept_columns_def kept_years_def item)
    then show ?thesis
      using Cons.prems(1) False c by (auto simp: item r d m1 Let_def split: if_splits)
  qed
  obtain rs where rs: "map (\<lambda>item. get_or_construct_value_with lib depth df (fst item) (Some reg) years) items
                         = map Inr rs"
    and i: "idx = i1 \<union> \<Union> (set (map2 kept_years items rs))"
    and t: "cols = t1 @ concat (map2 kept_columns items rs)"
    and m: "formulas = m1 ++ map_of (rev (concat (map2 formula_entry items rs)))"
    using Cons.IH [OF l rest] by blast
  have "map (\<lambda>item. get_or_construct_value_with lib depth df (fst item) (Some reg) years) (item # items)
          = map Inr ((s, f) # rs)"
    using rs r by (simp add: item)
  moreover have "idx = i0 \<union> \<Union> (set (map2 kept_years (item # items) ((s, f) # rs)))"
    using i by (simp add: i1_def Un_assoc)
  moreover have "cols = t0 @ concat (map2 kept_columns (item # items) ((s, f) # rs))"
    using t by (simp add: t1_def)
  moreover have "formulas = m0 ++ map_of (rev (concat (map2 formula_entry (item # items) ((s, f) # rs))))"
    using m by (simp add: m1_def map_of_append map_add_assoc rev_formula_entry)
  ultimately show ?case by blast
qed

text \<open>
  Claim C8, as amended. \<open>lib\<close> stands for the three libraries, whatever they do. Whenever
  the Batch Resolver returns, over a registry without a repeated key: every variable of
  the registry has been resolved; the combined table has, in registry order, one column
  for each variable whose \<^verbatim>\<open>drop\<close> is not true and whose series is not empty, and none for
  the others; the columns are aligned by year, that is, the index of the table is the
  union of the years of these series and each column holds, at every year of that index,
  the value of its variable at that year when it has one and no value otherwise; and the
  formulas map the name, underscores turned into spaces, of every variable whose
  \<^verbatim>\<open>formula\<close> is not \<^verbatim>\<open>None\<close> to the formula its resolution returned, the later variable
  winning when two names read the same. The counterexample has two variables, neither
  dropped, and a table with the code of the first only: the combined table has one
  column.
\<close>
theorem batch_collects_columns_and_formulas:
  assumes "get_or_construct_data lib depth df reg years = Inr (result, formulas)"
    and "distinct (map fst reg)"
  shows "\<exists>rs. map (\<lambda>item. get_or_construct_value_with lib depth df (fst item) (Some reg) years) reg
                = map Inr rs
            \<and> fst result = \<Union> (set (map2 kept_years reg rs))
            \<and> snd result = concat (map2 kept_columns reg rs)
            \<and> formulas = map_of (rev (concat (map2 formula_entry reg rs)))"
proof -
  have "\<forall>item \<in> set reg. map_of reg (fst item) = Some (snd item)"
    using assms(2) by (auto simp: map_of_eq_Some_iff)
  then show ?thesis
    using data_loop_collects [of lib depth df reg years reg "{}" "[]" Map.empty
        "fst result" "snd result" formulas] assms(1)
    by (simp add: get_or_construct_data_def)
qed

theorem empty_series_adds_no_column_counterexample:
  "get_or_construct_data model_library (Suc 0) [row_of ''D41'' 1999 10] two_codes_registry [1999]
     = Inr (({1999}, [(''X'', map_of [(1999, 10)])]), Map.empty)
   \<and> map (\<lambda>item. truthy (dict_get (snd item) ''drop'')) two_codes_registry = [False, False]"
proof -
  have x: "get_or_construct_value_with model_library (Suc 0) [row_of ''D41'' 1999 10] ''X''
             (Some two_codes_registry) [1999]
             = Inr (Serie ''X'' [(1999, 10)], ''X'')"
    by code_simp
  have y: "get_or_construct_value_with model_library (Suc 0) [row_of ''D41'' 1999 10] ''Y''
             (Some two_codes_registry) [1999]
             = Inr (NoSerie, [])"
    by code_simp
  have "map fst two_codes_registry = [''X'', ''Y'']"
    and "map_of two_codes_registry ''X'' = Some [(''code'', PStr ''D41'')]"
    and "map_of two_codes_registry ''Y'' = Some [(''code'', PStr ''D42'')]"
    by (simp_all add: two_codes_registry_def)
  then have "get_or_construct_data model_library (Suc 0) [row_of ''D41'' 1999 10] two_codes_registry [1999]
     = Inr (({1999}, [(''X'', map_of [(1999, 10)])]), Map.empty)"
    by (simp add: get_or_construct_data_def x y dict_get_def concat_columns_def Let_def)
  moreover have "map (\<lambda>item. truthy (dict_get (snd item) ''drop'')) two_codes_registry = [False, False]"
    by (simp add: two_codes_registry_def dict_get_def)
  ultimately show ?thesis by (rule conjI)
qed


theorem batch_collects_columns_and_formulas_witness:
  "get_or_construct_data model_library (Suc (Suc 0)) uneven_years dropping_x_registry [1999, 2000, 2001]
     = Inr (({1999, 2000, 2001},
             [(''Y'', map_of [(2000, 6), (2001, 7)]), (''Z'', map_of [(1999, 20), (2000, 22)])]),
            [''Z'' \<mapsto> ''(X) * 2''])
   \<and> (\<exists>rs. map (\<lambda>item. get_or_construct_value_with model_library (Suc (Suc 0)) uneven_years (fst item)
                       (Some dropping_x_registry) [1999, 2000, 2001]) dropping_x_registry = map Inr rs
            \<and> {1999, 2000, 2001} = \<Union> (set (map2 kept_years dropping_x_registry rs))
            \<and> [(''Y'', map_of [(2000, 6), (2001, 7)]), (''Z'', map_of [(1999, 20), (2000, 22)])]
                = concat (map2 kept_columns dropping_x_registry rs)
            \<and> [''Z'' \<mapsto> ''(X) * 2''] = map_of (rev (concat (map2 formula_entry dropping_x_registry rs))))"
proof -
  have x: "get_or_construct_value_with model_library (Suc (Suc 0)) uneven_years ''X''
             (Some dropping_x_registry) [1999, 2000, 2001]
             = Inr (Serie ''X'' [(1999, 10), (2000, 11)], ''X'')"
    by code_simp
  have y: "get_or_construct_value_with model_library (Suc (Suc 0)) uneven_years ''Y''
             (Some dropping_x_registry) [1999, 2000, 2001]
             = Inr (Serie ''Y'' [(2000, 6), (2001, 7)], ''Y'')"
    by code_simp
  have z: "get_or_construct_value_with model_library (Suc (Suc 0)) uneven_years ''Z''
             (Some dropping_x_registry) [1999, 2000, 2001]
             = Inr (Serie ''Z'' [(1999, 20), (2000, 22)], ''(X) * 2'')"
    by code_simp
  have k: "map fst dropping_x_registry = [''X'', ''Y'', ''Z'']"
    and "map_of dropping_x_registry ''X'' = Some [(''code'', PStr ''D41''), (''drop'', PBool True)]"
    and "map_of dropping_x_registry ''Y'' = Some [(''code'', PStr ''D42'')]"
    and "map_of dropping_x_registry ''Z'' = Some [(''formula'', PStr ''X * 2'')]"
    by (simp_all add: dropping_x_registry_def)
  then have e: "get_or_construct_data model_library (Suc (Suc 0)) uneven_years dropping_x_registry
                  [1999, 2000, 2001]
     = Inr (({1999, 2000, 2001},
             [(''Y'', map_of [(2000, 6), (2001, 7)]), (''Z'', map_of [(1999, 20), (2000, 22)])]),
            [''Z'' \<mapsto> ''(X) * 2''])"
    by (auto simp add: get_or_construct_data_def x y z dict_get_def concat_columns_def Let_def
        underscores_to_spaces_def)
  have d: "distinct (map fst dropping_x_registry)"
    by (simp add: k)
  show ?thesis
    using batch_collects_columns_and_formulas [OF e d] e by simp
qed

section \<open>What a call leaves of the store\<close>

lemma extends_refl: "extends h h"
  by (simp add: extends_def)

lemma extends_length: "extends h h' \<Longrightarrow> length h \<le> length h'"
proof -
  assume "extends h h'"
  then have "length (take (length h) h') = length h" by (simp add: extends_def)
  then show ?thesis by simp
qed

lemma extends_trans: "extends h h1 \<Longrightarrow> extends h1 h2 \<Longrightarrow> extends h h2"
proof -
  assume a: "extends h h1" and b: "extends h1 h2"
  have "take (length h) (take (length h1) h2) = take (length h) h2"
    using extends_length [OF a] by (simp add: min_absorb1)
  moreover have "take (length h1) h2 = h1" using b by (simp add: extends_def)
  ultimately have "take (length h) h2 = take (length h) h1" by simp
  then show ?thesis using a by (simp add: extends_def)
qed

lemma extends_append: "extends h (h @ ext)"
  by (simp add: extends_def)

lemma extends_nth: "extends h h' \<Longrightarrow> a < length h \<Longrightarrow> h' ! a = h ! a"
proof -
  assume e: "extends h h'" and a: "a < length h"
  have "take (length h) h' ! a = h' ! a" using a by simp
  then show ?thesis using e by (simp add: extends_def)
qed

lemma extends_update: "extends h h' \<Longrightarrow> length h \<le> a \<Longrightarrow> extends h (h'[a := x])"
  by (simp add: extends_def)

lemma alloc_eq: "alloc x h = (length h, h @ [x])"
  by (simp add: alloc_def)

lemma extends_alloc: "extends h (snd (alloc x h))"
  by (simp add: alloc_def extends_append)

lemma extends_copy: "extends h (snd (copy a h))"
  by (simp add: copy_def extends_alloc)

lemma select_copy_eq:
  "select_copy a P h =
     (Suc (length h), h @ [Table (getitem_bool (table_at h a) P), Table (getitem_bool (table_at h a) P)])"
  by (simp add: select_copy_def alloc_def copy_def deref_def)

lemma extends_select_copy: "extends h (snd (select_copy a P h))"
  by (simp add: select_copy_eq extends_append)

lemma extends_look_up_items_h: "extends h (snd (look_up_items_h items result h))"
proof (induction items arbitrary: result h)
  case Nil
  then show ?case by (simp add: extends_refl)
next
  case (Cons kv items)
  obtain key v where kv: "kv = (key, v)" by (cases kv)
  have step: "extends h (snd (look_up_items_h items a h1))" if "extends h h1" for a h1
    using that Cons.IH extends_trans by blast
  show ?case
  proof (cases rule: constraint_cases [of v key])
    case skip
    then show ?thesis using Cons.IH unfolding kv by auto
  next
    case formula
    then show ?thesis unfolding kv by (simp add: step extends_alloc)
  next
    case descr
    then show ?thesis unfolding kv
      by (simp add: step extends_select_copy extends_refl Let_def split: sum.splits)
  next
    case equal
    have "extends h (snd (alloc x (snd (select_copy a P h))))" for x a P
      using extends_trans [OF extends_select_copy extends_alloc] .
    then show ?thesis using equal unfolding kv
      by (simp add: step extends_select_copy extends_refl Let_def split: option.splits)
  qed
qed

lemma look_up_h_eq:
  "look_up_h df c years h =
     look_up_items_h c (Suc (Suc (length h)))
       (h @ [deref h df, Table (getitem_bool (table_at (h @ [deref h df]) (length h)) (\<lambda>r. year r \<in> set years)),
             Table (getitem_bool (table_at (h @ [deref h df]) (length h)) (\<lambda>r. year r \<in> set years))])"
  by (simp add: look_up_h_def copy_def alloc_def select_copy_eq)

lemma extends_look_up_h_copy: "extends (h @ [deref h df]) (snd (look_up_h df c years h))"
proof -
  have "extends (h @ [deref h df]) ((h @ [deref h df]) @ ext)" for ext
    by (rule extends_append)
  then show ?thesis
    unfolding look_up_h_eq using extends_trans [OF _ extends_look_up_items_h] by simp
qed

lemma extends_look_up_h: "extends h (snd (look_up_h df c years h))"
  using extends_trans [OF extends_append extends_look_up_h_copy] .

lemma extends_direct_h: "extends h (snd (direct_h name a h))"
  by (simp add: direct_h_def alloc_def copy_def extends_def)

lemma extends_construct_h: "extends h (snd (construct_h name f vars st h))"
  by (auto simp: construct_h_def alloc_def extends_append extends_refl split: sum.splits)

lemma extends_first_step_h: "extends h (snd (first_step_h df name reg years h))"
proof (cases "map_of reg name")
  case None
  then show ?thesis by (simp add: first_step_h_def extends_refl)
next
  case (Some variable)
  obtain r h1 where l: "look_up_h df variable years h = (r, h1)"
    by (cases "look_up_h df variable years h")
  have e: "extends h h1" using extends_look_up_h [of h df variable years] l by simp
  have d: "extends h h2" if "direct_h name a h1 = (s, h2)" for a s h2
    using extends_trans [OF e extends_direct_h [of h1 name a]] that by simp
  have a: "extends h h2" if "alloc x h1 = (s, h2)" for x s h2
    using extends_trans [OF e extends_alloc [of h1 x]] that by simp
  show ?thesis
  proof (cases r)
    case (Inl err)
    then show ?thesis using e by (simp add: first_step_h_def Some l)
  next
    case (Inr entry_df)
    then show ?thesis using e d a
      by (auto simp: first_step_h_def Some l Let_def split: prod.splits sum.splits)
  qed
qed

lemma extends_resolver:
  "extends h (snd (get_or_construct_value_h depth df name ibv years h))"
  "extends h (snd (components_loop_h depth df reg years f vars st h))"
proof (induction depth df name ibv years h and depth df reg years f vars st h
    rule: get_or_construct_value_h_components_loop_h.induct)
  case (1 df variable_name index_by_variable years h)
  then show ?case by (simp add: extends_refl)
next
  case (2 depth df variable_name index_by_variable years h)
  define df' where "df' = fst (copy df h)"
  define h0 where "h0 = snd (copy df h)"
  obtain step h1 where fs: "first_step_h df' variable_name (the_registry variable_name index_by_variable) years h0 = (step, h1)"
    by (cases "first_step_h df' variable_name (the_registry variable_name index_by_variable) years h0")
  have e0: "extends h h0" by (simp add: h0_def extends_copy)
  have e1: "extends h h1"
    using extends_trans [OF e0 extends_first_step_h [of h0 df' variable_name "the_registry variable_name index_by_variable" years]] fs by simp
  show ?case
  proof (cases step)
    case (ReturnH r)
    then show ?thesis using e1 fs by (simp add: df'_def h0_def)
  next
    case (DerivedH formula vars)
    obtain r h2 where cl: "components_loop_h depth df' (the_registry variable_name index_by_variable)
        years formula vars (None, [], None) h1 = (r, h2)"
      by (cases "components_loop_h depth df' (the_registry variable_name index_by_variable)
        years formula vars (None, [], None) h1")
    have "extends h1 h2"
      using "2.IH" [OF fs [symmetric, unfolded df'_def h0_def] DerivedH] cl
      by (simp add: df'_def h0_def)
    then have e2: "extends h h2" using extends_trans [OF e1] by blast
    show ?thesis
    proof (cases r)
      case (Inl err)
      then show ?thesis using e2 fs DerivedH cl by (simp add: df'_def h0_def)
    next
      case (Inr st)
      have "extends h (snd (construct_h variable_name formula vars st h2))"
        using extends_trans [OF e2 extends_construct_h] .
      then show ?thesis using fs DerivedH cl Inr by (simp add: df'_def h0_def)
    qed
  qed
next
  case (3 depth df index_by_variable years formula st h)
  then show ?case by (simp add: extends_refl)
next
  case (4 depth df index_by_variable years formula component rest st h)
  obtain r h1 where g: "get_or_construct_value_h depth df component (Some index_by_variable) years h = (r, h1)"
    by (cases "get_or_construct_value_h depth df component (Some index_by_variable) years h")
  have e1: "extends h h1" using "4.IH"(1) g by simp
  show ?case
  proof (cases r)
    case (Inl err)
    then show ?thesis using e1 g by simp
  next
    case (Inr p)
    obtain vv vf where p: "p = (vv, vf)" by (cases p)
    have "extends h1 (snd (components_loop_h depth df index_by_variable years formula rest
            (Some (str_replace formula component (''('' @ vf @ '')'')),
             (component, squeeze (column_at h1 vv)) # fst (snd st),
             Some (serie_index (column_at h1 vv))) h1))"
      using "4.IH"(2) [OF g [symmetric] Inr p [symmetric]] by simp
    then show ?thesis using extends_trans [OF e1] g Inr p by simp
  qed
qed

section \<open>The store computes what the functions compute\<close>

lemma table_at_new [simp]: "table_at (h @ [Table f]) (length h) = f"
  by (simp add: table_at_def deref_def)

lemma table_at_new2 [simp]: "table_at (h @ [x, Table f]) (Suc (length h)) = f"
  by (simp add: table_at_def deref_def nth_append)

lemma table_at_new3 [simp]: "table_at (h @ [x, y, Table f]) (Suc (Suc (length h))) = f"
  by (simp add: table_at_def deref_def nth_append)

lemma column_at_new [simp]: "column_at (h @ [Column s]) (length h) = s"
  by (simp add: column_at_def deref_def)

lemma table_at_extends: "extends h h' \<Longrightarrow> a < length h \<Longrightarrow> table_at h' a = table_at h a"
  using extends_nth [of h h' a] extends_length [of h h']
  by (simp add: table_at_def deref_def)

lemma look_up_items_h_refines:
  "result < length h \<Longrightarrow>
   refines_table (look_up_items_h items result h) (look_up_items items (table_at h result))"
proof (induction items arbitrary: result h)
  case Nil
  then show ?case by (simp add: refines_table_def)
next
  case (Cons kv items)
  obtain key v where kv: "kv = (key, v)" by (cases kv)
  have new: "refines_table (look_up_items_h items (length h1) (h1 @ [Table f])) (look_up_items items f)"
    for h1 f
    using Cons.IH [of "length h1" "h1 @ [Table f]"] by simp
  have sel: "refines_table (look_up_items_h items (Suc (length h)) (h @ [x, Table f])) (look_up_items items f)"
    for x f
    using Cons.IH [of "Suc (length h)" "h @ [x, Table f]"] by simp
  have sel3: "refines_table (look_up_items_h items (Suc (Suc (length h))) (h @ [x, y, Table f]))
      (look_up_items items f)" for x y f
    using Cons.IH [of "Suc (Suc (length h))" "h @ [x, y, Table f]"] by simp
  show ?case
  proof (cases rule: constraint_cases [of v key])
    case skip
    then show ?thesis using Cons.IH [OF Cons.prems] unfolding kv by auto
  next
    case formula
    then show ?thesis unfolding kv by (simp add: alloc_eq new)
  next
    case descr
    show ?thesis
    proof (cases "str_contains v")
      case (Inl e)
      then show ?thesis using descr unfolding kv by (simp add: refines_table_def)
    next
      case (Inr found)
      then show ?thesis using descr unfolding kv by (simp add: select_copy_eq sel Let_def)
    qed
  next
    case equal
    show ?thesis
    proof (cases "getitem_col key")
      case None
      then show ?thesis using equal unfolding kv by (simp add: refines_table_def)
    next
      case (Some col)
      show ?thesis
      proof (cases "frame_empty (getitem_bool (table_at h result) (\<lambda>r. py_eq (col r) v))")
        case True
        then show ?thesis using equal Some unfolding kv
          by (simp add: select_copy_eq Let_def alloc_eq sel3)
      next
        case False
        then show ?thesis using equal Some unfolding kv
          by (simp add: select_copy_eq Let_def sel)
      qed
    qed
  qed
qed

lemma look_up_h_refines:
  assumes "df < length h" and "table_at h df = DataFrame rows"
  shows "refines_table (look_up_h df c years h) (look_up rows c years)"
proof -
  have "deref h df = Table (DataFrame rows)"
    using assms by (auto simp: table_at_def deref_def split: obj.splits)
  then show ?thesis
    using look_up_items_h_refines [of "Suc (Suc (length h))"
        "h @ [Table (DataFrame rows), Table (DataFrame (filter (\<lambda>r. year r \<in> set years) rows)),
              Table (DataFrame (filter (\<lambda>r. year r \<in> set years) rows))]" c]
    by (simp add: look_up_h_eq look_up_def getitem_bool_def)
qed

lemma table_at_copy [simp]: "table_at (h @ [deref h a]) (length h) = table_at h a"
  by (simp add: table_at_def deref_def)

lemma deref_new2: "deref (h @ [x, y]) (Suc (length h)) = y"
  by (simp add: deref_def nth_append)

lemma update_new3: "(h @ [x, y, z])[Suc (Suc (length h)) := w] = h @ [x, y, w]"
  by (simp add: list_update_append)

lemma column_at_new3 [simp]: "column_at (h @ [x, y, Column s]) (Suc (Suc (length h))) = s"
  by (simp add: column_at_def deref_def nth_append)

lemma rename_direct: "rename name (direct old f) = direct name f"
  by (simp add: direct_def)

lemma direct_h_eq:
  "direct_h name a h =
     (Suc (Suc (length h)),
      h @ [deref h a, Column (direct ''value'' (table_at h a)), Column (direct name (table_at h a))])"
  by (simp add: direct_h_def alloc_eq copy_def deref_new2 update_new3 rename_direct)

lemma first_step_h_refines:
  assumes "df < length h" and "table_at h df = DataFrame rows"
  shows "refines_step (first_step_h df name reg years h) (first_step rows name reg years)"
proof (cases "map_of reg name")
  case None
  then show ?thesis
    by (simp add: first_step_h_def first_step_def refines_step_def refines_serie_def)
next
  case (Some variable)
  obtain r h1 where l: "look_up_h df variable years h = (r, h1)"
    by (cases "look_up_h df variable years h")
  have ref: "refines_table (r, h1) (look_up rows variable years)"
    using look_up_h_refines [OF assms, of variable years] l by simp
  show ?thesis
  proof (cases r)
    case (Inl e)
    then have "look_up rows variable years = Inl e"
      using ref by (simp add: refines_table_def)
    then show ?thesis using Inl
      by (simp add: first_step_h_def first_step_def Some l refines_step_def refines_serie_def)
  next
    case (Inr a)
    then have a: "a < length h1" and p: "look_up rows variable years = Inr (table_at h1 a)"
      using ref by (simp_all add: refines_table_def)
    show ?thesis
    proof (cases "frame_empty (table_at h1 a)")
      case False
      then show ?thesis using Inr p
        by (simp add: first_step_h_def first_step_def Some l direct_h_eq refines_step_def
            refines_serie_def)
    next
      case True
      show ?thesis
      proof (cases "truthy (dict_get variable ''formula'')")
        case False
        then show ?thesis using True Inr p
          by (simp add: first_step_h_def first_step_def Some l alloc_eq refines_step_def
              refines_serie_def)
      next
        case t: True
        show ?thesis
        proof (cases "parse_formula (dict_get variable ''formula'')")
          case (Inl e)
          then show ?thesis using True t Inr p
            by (simp add: first_step_h_def first_step_def Some l refines_step_def refines_serie_def)
        next
          case (Inr vars)
          then show ?thesis using True t \<open>r = Inr a\<close> p
            by (simp add: first_step_h_def first_step_def Some l refines_step_def)
        qed
      qed
    qed
  qed
qed

lemma construct_h_refines:
  "refines_serie (construct_h name f vars st h) (construct name f vars st)"
  by (cases "construct name f vars st")
    (auto simp: construct_h_def alloc_eq refines_serie_def)

lemma resolver_refines:
  "df < length h \<Longrightarrow> table_at h df = DataFrame rows \<Longrightarrow>
   refines_serie (get_or_construct_value_h depth df name ibv years h)
     (get_or_construct_value depth rows name ibv years)"
  "df < length h \<Longrightarrow> table_at h df = DataFrame rows \<Longrightarrow>
   fst (components_loop_h depth df reg years f vars st h)
     = components_loop depth rows reg years f vars st"
proof (induction depth df name ibv years h and depth df reg years f vars st h
    rule: get_or_construct_value_h_components_loop_h.induct)
  case (1 df variable_name index_by_variable years h)
  then show ?case by (simp add: refines_serie_def)
next
  case (2 depth df variable_name index_by_variable years h)
  define reg where "reg = the_registry variable_name index_by_variable"
  have c: "copy df h = (length h, h @ [deref h df])" by (simp add: copy_def alloc_eq)
  define h0 where "h0 = h @ [deref h df]"
  have v0: "length h < length h0" and t0: "table_at h0 (length h) = DataFrame rows"
    using "2.prems" by (simp_all add: h0_def)
  obtain step h1 where fs: "first_step_h (length h) variable_name reg years h0 = (step, h1)"
    by (cases "first_step_h (length h) variable_name reg years h0")
  have fs': "(step, h1) = first_step_h (fst (copy df h)) variable_name
      (the_registry variable_name index_by_variable) years (snd (copy df h))"
    using fs by (simp add: c h0_def reg_def)
  have ref: "refines_step (step, h1) (first_step rows variable_name reg years)"
    using first_step_h_refines [OF v0 t0, of variable_name reg years] fs by simp
  have e1: "extends h0 h1"
    using extends_first_step_h [of h0 "length h" variable_name reg years] fs by simp
  have v1: "length h < length h1" using v0 extends_length [OF e1] by simp
  have t1: "table_at h1 (length h) = DataFrame rows"
    using table_at_extends [OF e1 v0] t0 by simp
  show ?case
  proof (cases step)
    case (ReturnH r)
    then show ?thesis using ref fs
      by (auto simp: get_or_construct_value.simps c h0_def reg_def refines_step_def)
  next
    case (DerivedH formula vars)
    then have p: "first_step rows variable_name reg years = Derived formula vars"
      using ref by (simp add: refines_step_def)
    obtain r h2 where cl: "components_loop_h depth (length h) reg years formula vars (None, [], None) h1 = (r, h2)"
      by (cases "components_loop_h depth (length h) reg years formula vars (None, [], None) h1")
    have "fst (components_loop_h depth (length h) reg years formula vars (None, [], None) h1)
            = components_loop depth rows reg years formula vars (None, [], None)"
      using "2.IH" [OF fs' DerivedH] v1 t1
      by (simp add: c reg_def)
    then have q: "components_loop depth rows reg years formula vars (None, [], None) = r"
      using cl by simp
    show ?thesis
    proof (cases r)
      case (Inl e)
      then show ?thesis using fs DerivedH cl p q
        by (simp add: get_or_construct_value.simps c h0_def reg_def refines_serie_def)
    next
      case (Inr st)
      then show ?thesis using fs DerivedH cl p q construct_h_refines [of variable_name formula vars st h2]
        by (simp add: get_or_construct_value.simps c h0_def reg_def)
    qed
  qed
next
  case (3 depth df index_by_variable years formula st h)
  then show ?case by simp
next
  case (4 depth df index_by_variable years formula component rest st h)
  obtain r h1 where g: "get_or_construct_value_h depth df component (Some index_by_variable) years h = (r, h1)"
    by (cases "get_or_construct_value_h depth df component (Some index_by_variable) years h")
  have ref: "refines_serie (r, h1) (get_or_construct_value depth rows component (Some index_by_variable) years)"
    using "4.IH"(1) [OF "4.prems"] g by simp
  have e1: "extends h h1"
    using extends_resolver(1) [of h depth df component "Some index_by_variable" years] g by simp
  have v1: "df < length h1" using "4.prems"(1) extends_length [OF e1] by simp
  have t1: "table_at h1 df = DataFrame rows"
    using table_at_extends [OF e1 "4.prems"(1)] "4.prems"(2) by simp
  show ?case
  proof (cases r)
    case (Inl e)
    then show ?thesis using ref g by (simp add: refines_serie_def)
  next
    case (Inr p)
    obtain vv vf where p: "p = (vv, vf)" by (cases p)
    have pure: "get_or_construct_value depth rows component (Some index_by_variable) years
                  = Inr (column_at h1 vv, vf)"
      using ref Inr p by (simp add: refines_serie_def)
    show ?thesis
      using "4.IH"(2) [OF g [symmetric] Inr p [symmetric] v1 t1] g Inr p pure by simp
  qed
qed

section \<open>The caller's table\<close>


lemma extends_resolver_copy:
  "extends (h @ [deref h df]) (snd (get_or_construct_value_h (Suc depth) df name ibv years h))"
proof -
  define reg where "reg = the_registry name ibv"
  define h0 where "h0 = h @ [deref h df]"
  have c: "copy df h = (length h, h0)" by (simp add: copy_def alloc_eq h0_def)
  obtain step h1 where fs: "first_step_h (length h) name reg years h0 = (step, h1)"
    by (cases "first_step_h (length h) name reg years h0")
  have e1: "extends h0 h1"
    using extends_first_step_h [of h0 "length h" name reg years] fs by simp
  show ?thesis
  proof (cases step)
    case (ReturnH r)
    then show ?thesis using e1 fs by (simp add: c reg_def h0_def [symmetric])
  next
    case (DerivedH formula vars)
    obtain r h2 where cl: "components_loop_h depth (length h) reg years formula vars (None, [], None) h1 = (r, h2)"
      by (cases "components_loop_h depth (length h) reg years formula vars (None, [], None) h1")
    have "extends h1 h2"
      using extends_resolver(2) [of h1 depth "length h" reg years formula vars "(None, [], None)"] cl
      by simp
    then have e2: "extends h0 h2" using extends_trans [OF e1] by blast
    show ?thesis
    proof (cases r)
      case (Inl e)
      then show ?thesis using e2 fs DerivedH cl by (simp add: c reg_def h0_def [symmetric])
    next
      case (Inr st)
      have "extends h0 (snd (construct_h name formula vars st h2))"
        using extends_trans [OF e2 extends_construct_h] .
      then show ?thesis using fs DerivedH cl Inr by (simp add: c reg_def h0_def [symmetric])
    qed
  qed
qed

text \<open>
  Claim C9. The caller's table is an object of the store, at \<open>df\<close>. After \<^verbatim>\<open>look_up\<close> and
  after \<^verbatim>\<open>get_or_construct_value\<close>, whatever their arguments and whether they return or
  raise, the store is the store of before followed by new objects: no object that existed
  has changed, the table least of all. The first of the new objects is the copy of the
  table that each function takes on entry. The results are those of \<open>look_up\<close> and
  \<open>get_or_construct_value\<close> above.
\<close>

theorem caller_table_is_left_unchanged:
  assumes "df < length h" and "h ! df = Table (DataFrame rows)"
  shows "extends h (snd (look_up_h df entry_by_index years h))
       \<and> snd (look_up_h df entry_by_index years h) ! df = Table (DataFrame rows)
       \<and> take (Suc (length h)) (snd (look_up_h df entry_by_index years h))
            = h @ [Table (DataFrame rows)]
       \<and> refines_table (look_up_h df entry_by_index years h) (look_up rows entry_by_index years)
       \<and> extends h (snd (get_or_construct_value_h depth df name ibv years h))
       \<and> snd (get_or_construct_value_h depth df name ibv years h) ! df = Table (DataFrame rows)
       \<and> take (Suc (length h)) (snd (get_or_construct_value_h (Suc depth) df name ibv years h))
            = h @ [Table (DataFrame rows)]
       \<and> refines_serie (get_or_construct_value_h depth df name ibv years h)
            (get_or_construct_value depth rows name ibv years)"
proof -
  have d: "deref h df = Table (DataFrame rows)" and t: "table_at h df = DataFrame rows"
    using assms by (simp_all add: deref_def table_at_def)
  have 1: "extends h (snd (look_up_h df entry_by_index years h))"
    by (rule extends_look_up_h)
  have 2: "snd (look_up_h df entry_by_index years h) ! df = Table (DataFrame rows)"
    using extends_nth [OF 1 assms(1)] assms(2) by simp
  have 3: "take (Suc (length h)) (snd (look_up_h df entry_by_index years h))
            = h @ [Table (DataFrame rows)]"
    using extends_look_up_h_copy [of h df entry_by_index years] by (simp add: extends_def d)
  have 4: "refines_table (look_up_h df entry_by_index years h) (look_up rows entry_by_index years)"
    using look_up_h_refines [OF assms(1) t] .
  have 5: "extends h (snd (get_or_construct_value_h depth df name ibv years h))"
    by (rule extends_resolver(1))
  have 6: "snd (get_or_construct_value_h depth df name ibv years h) ! df = Table (DataFrame rows)"
    using extends_nth [OF 5 assms(1)] assms(2) by simp
  have 7: "take (Suc (length h)) (snd (get_or_construct_value_h (Suc depth) df name ibv years h))
            = h @ [Table (DataFrame rows)]"
    using extends_resolver_copy [of h df depth name ibv years] by (simp add: extends_def d)
  have 8: "refines_serie (get_or_construct_value_h depth df name ibv years h)
            (get_or_construct_value depth rows name ibv years)"
    using resolver_refines(1) [OF assms(1) t] .
  show ?thesis using 1 2 3 4 5 6 7 8 by blast
qed

theorem caller_table_is_left_unchanged_witness:
  "snd (look_up_h 0 [(''code'', PStr ''D41'')] [1999, 2000] [Table (DataFrame two_years)]) ! 0
     = Table (DataFrame two_years)
   \<and> snd (get_or_construct_value_h (Suc (Suc 0)) 0 ''Z'' (Some example_registry) [1999, 2000]
           [Table (DataFrame two_years)]) ! 0
     = Table (DataFrame two_years)
   \<and> refines_serie
       (get_or_construct_value_h (Suc (Suc 0)) 0 ''Z'' (Some example_registry) [1999, 2000]
          [Table (DataFrame two_years)])
       (Inr (Serie ''Z'' [(1999, 15), (2000, 17)], ''X + (Y)''))"
proof -
  have z: "get_or_construct_value (Suc (Suc 0)) two_years ''Z'' (Some example_registry) [1999, 2000]
             = Inr (Serie ''Z'' [(1999, 15), (2000, 17)], ''X + (Y)'')"
    by code_simp
  have a: "(0::nat) < length [Table (DataFrame two_years)]"
    and b: "[Table (DataFrame two_years)] ! 0 = Table (DataFrame two_years)"
    by simp_all
  show ?thesis
    using caller_table_is_left_unchanged [OF a b, where entry_by_index = "[(''code'', PStr ''D41'')]"
        and years = "[1999, 2000]" and depth = "Suc (Suc 0)" and name = "''Z''"
        and ibv = "Some example_registry"] z
    by simp
qed

section \<open>Descriptions without a dot\<close>

text \<open>
  On a constraint set whose description has no dot, \<^verbatim>\<open>look_up\<close> returns, whenever it
  returns, the rows of the requested years that match every constraint as the
  specification reads it, the description by substring containment.
\<close>

lemma satisfies_plain:
  assumes "applicable key v"
    and "key = ''description'' \<longrightarrow> v = PNone \<or> (\<exists>pat. v = PStr pat \<and> CHR ''.'' \<notin> set pat)"
  shows "satisfies key v r = substring_satisfies key v r"
proof (cases rule: constraint_cases [of v key])
  case skip
  then show ?thesis by (auto simp: satisfies_def substring_satisfies_def)
next
  case formula
  then show ?thesis by (simp add: satisfies_def substring_satisfies_def getitem_col_def)
next
  case descr
  then obtain pat where v: "v = PStr pat" and d: "CHR ''.'' \<notin> set pat"
    using assms(2) by auto
  have "\<not> isl (str_contains (PStr pat))"
    using assms(1) descr v by (simp add: applicable_def)
  then have "str_contains (PStr pat) = Inr (re_search pat)"
    by (simp add: str_contains_def split: if_splits)
  then show ?thesis
    using descr v d by (simp add: satisfies_def substring_satisfies_def re_search_plain)
next
  case equal
  then show ?thesis by (simp add: satisfies_def substring_satisfies_def)
qed

lemma look_up_rows_plain:
  assumes "look_up df c years = Inr g"
    and "list_all (\<lambda>(key, v). key = ''description'' \<longrightarrow>
           v = PNone \<or> (\<exists>pat. v = PStr pat \<and> CHR ''.'' \<notin> set pat)) c"
  shows "frame_rows g =
           filter (\<lambda>r. year r \<in> set years \<and> list_all (\<lambda>(key, v). substring_satisfies key v r) c) df"
proof -
  have a: "list_all (\<lambda>(key, v). applicable key v) c"
    using look_up_items_not_applicable [of c "DataFrame (filter (\<lambda>r. year r \<in> set years) df)"] assms(1)
    by (auto simp: look_up_def)
  have "matches c r = list_all (\<lambda>(key, v). substring_satisfies key v r) c" for r
    unfolding matches_def using a assms(2)
    by (induction c) (auto simp: satisfies_plain)
  then show ?thesis using look_up_rows [OF assms(1)] by simp
qed

end
